theory Spec2Isabelle
  imports Main "HOL-Library.Word"
begin

section \<open>The Voting contract (contracts/Voting.sol, Solidity 0.8.19)\<close>

text \<open>
  A shallow embedding of the contract. Contract storage is a record that every call takes
  and, when it succeeds, returns updated; \<open>msg.sender\<close> and \<open>block.timestamp\<close> come in an
  environment record. A call that reverts returns \<open>Inl\<close> with the reason and no state: the
  EVM rolls the storage back. \<open>uint256\<close> is a 256-bit word and \<open>address\<close> a 160-bit word.
  Arithmetic is the checked arithmetic of Solidity 0.8: an overflow is \<open>Panic 17\<close>
  (0x11), an array index out of range is \<open>Panic 50\<close> (0x32), and a memory array requested
  with more than \<open>2^64 - 1\<close> elements is \<open>Panic 65\<close> (0x41). Loop counters that run over
  an array are naturals below the array's length. Events and gas are not modelled.
\<close>

subsection \<open>Values, errors and checked arithmetic\<close>

type_synonym uint256 = "256 word"
type_synonym address = "160 word"

datatype error = Revert string | Panic nat

definition checked_add :: "uint256 \<Rightarrow> uint256 \<Rightarrow> error + uint256" where
  "checked_add a b = (if unat a + unat b < 2 ^ 256 then Inr (a + b) else Inl (Panic 17))"

definition checked_mul :: "uint256 \<Rightarrow> uint256 \<Rightarrow> error + uint256" where
  "checked_mul a b = (if unat a * unat b < 2 ^ 256 then Inr (a * b) else Inl (Panic 17))"

subsection \<open>Storage\<close>

record Poll =
  id_poll :: uint256
  question :: string
  options :: "string list"
  voteCounts :: "uint256 list"
  creator :: address
  endTime :: uint256
  active :: bool
  hasVoted :: "address \<Rightarrow> bool"
  voterChoice :: "address \<Rightarrow> uint256"

record Voting =
  pollCount :: uint256
  polls :: "uint256 \<Rightarrow> Poll"

record env =
  msg_sender :: address
  block_timestamp :: uint256

text \<open>A storage slot that was never written reads as zero in every field.\<close>

definition emptyPoll :: Poll where
  "emptyPoll = \<lparr>id_poll = 0, question = [], options = [], voteCounts = [], creator = 0,
     endTime = 0, active = False, hasVoted = (\<lambda>_. False), voterChoice = (\<lambda>_. 0)\<rparr>"

definition deployed :: Voting where
  "deployed = \<lparr>pollCount = 0, polls = (\<lambda>_. emptyPoll)\<rparr>"

subsection \<open>Modifiers\<close>

definition pollExists :: "uint256 \<Rightarrow> Voting \<Rightarrow> bool" where
  "pollExists pid s \<longleftrightarrow> pid > 0 \<and> pid \<le> pollCount s"

definition pollActive :: "uint256 \<Rightarrow> env \<Rightarrow> Voting \<Rightarrow> error option" where
  "pollActive pid e s =
     (if \<not> active (polls s pid) then Some (Revert ''Poll is not active'')
      else if \<not> block_timestamp e < endTime (polls s pid) then Some (Revert ''Poll has ended'')
      else None)"

definition hasNotVoted :: "uint256 \<Rightarrow> env \<Rightarrow> Voting \<Rightarrow> bool" where
  "hasNotVoted pid e s \<longleftrightarrow> \<not> hasVoted (polls s pid) (msg_sender e)"

subsection \<open>Mutating functions\<close>

text \<open>The \<open>for\<close> loop of \<open>createPoll\<close>, from index \<open>i\<close> on.\<close>

function pushOptions :: "nat \<Rightarrow> string list \<Rightarrow> Poll \<Rightarrow> error + Poll" where
  "pushOptions i opts p =
     (if i < length opts then
        (if \<not> length (opts ! i) > 0 then Inl (Revert ''Option cannot be empty'')
         else pushOptions (Suc i) opts
                (p\<lparr>options := options p @ [opts ! i], voteCounts := voteCounts p @ [0]\<rparr>))
      else Inr p)"
  by pat_completeness auto
termination
  by (relation "measure (\<lambda>(i, opts, p). length opts - i)") auto

declare pushOptions.simps [simp del]

definition createPoll ::
  "string \<Rightarrow> string list \<Rightarrow> uint256 \<Rightarrow> env \<Rightarrow> Voting \<Rightarrow> error + (uint256 \<times> Voting)" where
  "createPoll q opts dur e s =
     (if \<not> length q > 0 then Inl (Revert ''Question cannot be empty'')
      else if \<not> length opts \<ge> 2 then Inl (Revert ''Need at least 2 options'')
      else if \<not> length opts \<le> 10 then Inl (Revert ''Maximum 10 options allowed'')
      else if \<not> dur > 0 then Inl (Revert ''Duration must be positive'')
      else if \<not> dur \<le> 10080 then Inl (Revert ''Max duration is 7 days'')
      else case checked_add (pollCount s) 1 of Inl err \<Rightarrow> Inl err | Inr pc \<Rightarrow>
        (case checked_mul dur 60 of Inl err \<Rightarrow> Inl err | Inr secs \<Rightarrow>
        (case checked_add (block_timestamp e) secs of Inl err \<Rightarrow> Inl err | Inr et \<Rightarrow>
        (case pushOptions 0 opts
                ((polls s pc)\<lparr>id_poll := pc, question := q, creator := msg_sender e,
                   endTime := et, active := True\<rparr>) of
           Inl err \<Rightarrow> Inl err
         | Inr p \<Rightarrow> Inr (pc, s\<lparr>pollCount := pc, polls := (polls s)(pc := p)\<rparr>)))))"

definition vote :: "uint256 \<Rightarrow> uint256 \<Rightarrow> env \<Rightarrow> Voting \<Rightarrow> error + Voting" where
  "vote pid oi e s =
     (if \<not> pollExists pid s then Inl (Revert ''Poll does not exist'')
      else case pollActive pid e s of Some err \<Rightarrow> Inl err | None \<Rightarrow>
        if \<not> hasNotVoted pid e s then Inl (Revert ''Already voted'')
        else let poll = polls s pid in
          if \<not> unat oi < length (options poll) then Inl (Revert ''Invalid option'')
          else if \<not> unat oi < length (voteCounts poll) then Inl (Panic 50)
          else case checked_add (voteCounts poll ! unat oi) 1 of Inl err \<Rightarrow> Inl err | Inr c \<Rightarrow>
            Inr (s\<lparr>polls := (polls s)(pid := poll\<lparr>
                   hasVoted := (hasVoted poll)(msg_sender e := True),
                   voterChoice := (voterChoice poll)(msg_sender e := oi),
                   voteCounts := list_update (voteCounts poll) (unat oi) c\<rparr>)\<rparr>))"

definition endPoll :: "uint256 \<Rightarrow> env \<Rightarrow> Voting \<Rightarrow> error + Voting" where
  "endPoll pid e s =
     (if \<not> pollExists pid s then Inl (Revert ''Poll does not exist'')
      else let poll = polls s pid in
        if \<not> msg_sender e = creator poll then Inl (Revert ''Only creator can end poll'')
        else if \<not> active poll then Inl (Revert ''Poll already ended'')
        else Inr (s\<lparr>polls := (polls s)(pid := poll\<lparr>active := False\<rparr>)\<rparr>))"

subsection \<open>Views\<close>

text \<open>The summing loop of \<open>getPoll\<close>, from index \<open>i\<close> on.\<close>

function sumCounts :: "nat \<Rightarrow> uint256 list \<Rightarrow> uint256 \<Rightarrow> error + uint256" where
  "sumCounts i vc totalVotes =
     (if i < length vc then
        (case checked_add totalVotes (vc ! i) of
           Inl err \<Rightarrow> Inl err
         | Inr t \<Rightarrow> sumCounts (Suc i) vc t)
      else Inr totalVotes)"
  by pat_completeness auto
termination
  by (relation "measure (\<lambda>(i, vc, t). length vc - i)") auto

declare sumCounts.simps [simp del]

definition getPoll ::
  "uint256 \<Rightarrow> env \<Rightarrow> Voting \<Rightarrow>
     error + (uint256 \<times> string \<times> string list \<times> uint256 list \<times> address \<times> uint256 \<times> bool \<times> uint256)" where
  "getPoll pid e s =
     (if \<not> pollExists pid s then Inl (Revert ''Poll does not exist'')
      else let poll = polls s pid in
        case sumCounts 0 (voteCounts poll) 0 of
          Inl err \<Rightarrow> Inl err
        | Inr totalVotes \<Rightarrow>
            Inr (id_poll poll, question poll, options poll, voteCounts poll, creator poll,
                 endTime poll, active poll \<and> block_timestamp e < endTime poll, totalVotes))"

definition hasVoted_view :: "uint256 \<Rightarrow> address \<Rightarrow> Voting \<Rightarrow> error + bool" where
  "hasVoted_view pid voter s =
     (if \<not> pollExists pid s then Inl (Revert ''Poll does not exist'')
      else Inr (hasVoted (polls s pid) voter))"

definition getVoterChoice :: "uint256 \<Rightarrow> address \<Rightarrow> Voting \<Rightarrow> error + uint256" where
  "getVoterChoice pid voter s =
     (if \<not> pollExists pid s then Inl (Revert ''Poll does not exist'')
      else if \<not> hasVoted (polls s pid) voter then Inl (Revert ''Address has not voted'')
      else Inr (voterChoice (polls s pid) voter))"

text \<open>The condition that both passes of \<open>getActivePolls\<close> test.\<close>

definition isActiveNow :: "uint256 \<Rightarrow> env \<Rightarrow> Voting \<Rightarrow> bool" where
  "isActiveNow i e s \<longleftrightarrow> active (polls s i) \<and> block_timestamp e < endTime (polls s i)"

lemma checked_add_one_unat:
  "checked_add i 1 = Inr j \<Longrightarrow> unat j = Suc (unat i)"
  by (auto simp: checked_add_def unat_add_lem [THEN iffD1] split: if_splits)

text \<open>First pass of \<open>getActivePolls\<close>: count the active polls from id \<open>i\<close> on.\<close>

function countActive :: "uint256 \<Rightarrow> env \<Rightarrow> Voting \<Rightarrow> uint256 \<Rightarrow> error + uint256" where
  "countActive i e s activeCount =
     (if i \<le> pollCount s then
        (case (if isActiveNow i e s then checked_add activeCount 1 else Inr activeCount) of
           Inl err \<Rightarrow> Inl err
         | Inr ac \<Rightarrow>
             (case checked_add i 1 of
                Inl err \<Rightarrow> Inl err
              | Inr i' \<Rightarrow> countActive i' e s ac))
      else Inr activeCount)"
  by pat_completeness auto
termination
  by (relation "measure (\<lambda>(i, e, s, ac). Suc (unat (pollCount s)) - unat i)")
     (auto dest!: checked_add_one_unat simp: word_le_nat_alt)

declare countActive.simps [simp del]

text \<open>Second pass: write the active ids into the array allocated from the count.\<close>

function collectActive ::
  "uint256 \<Rightarrow> env \<Rightarrow> Voting \<Rightarrow> uint256 list \<Rightarrow> uint256 \<Rightarrow> error + uint256 list" where
  "collectActive i e s activePollIds index =
     (if i \<le> pollCount s then
        (case (if isActiveNow i e s then
                 (if \<not> unat index < length activePollIds then Inl (Panic 50)
                  else case checked_add index 1 of
                    Inl err \<Rightarrow> Inl err
                  | Inr ix \<Rightarrow> Inr (list_update activePollIds (unat index) i, ix))
               else Inr (activePollIds, index)) of
           Inl err \<Rightarrow> Inl err
         | Inr (ids, ix) \<Rightarrow>
             (case checked_add i 1 of
                Inl err \<Rightarrow> Inl err
              | Inr i' \<Rightarrow> collectActive i' e s ids ix))
      else Inr activePollIds)"
  by pat_completeness auto
termination
  by (relation "measure (\<lambda>(i, e, s, ids, ix). Suc (unat (pollCount s)) - unat i)")
     (auto dest!: checked_add_one_unat simp: word_le_nat_alt)

declare collectActive.simps [simp del]

definition getActivePolls :: "env \<Rightarrow> Voting \<Rightarrow> error + uint256 list" where
  "getActivePolls e s =
     (case countActive 1 e s 0 of
        Inl err \<Rightarrow> Inl err
      | Inr activeCount \<Rightarrow>
          if 2 ^ 64 - 1 < unat activeCount then Inl (Panic 65)
          else collectActive 1 e s (replicate (unat activeCount) 0) 0)"

text \<open>The scan of \<open>getWinner\<close>, from index \<open>i\<close> on.\<close>

function winnerLoop :: "nat \<Rightarrow> uint256 list \<Rightarrow> uint256 \<Rightarrow> nat \<Rightarrow> uint256 \<times> nat" where
  "winnerLoop i vc maxVotes winnerIndex =
     (if i < length vc then
        (if vc ! i > maxVotes then winnerLoop (Suc i) vc (vc ! i) i
         else winnerLoop (Suc i) vc maxVotes winnerIndex)
      else (maxVotes, winnerIndex))"
  by pat_completeness auto
termination
  by (relation "measure (\<lambda>(i, vc, m, w). length vc - i)") auto

declare winnerLoop.simps [simp del]

definition getWinner :: "uint256 \<Rightarrow> Voting \<Rightarrow> error + (uint256 \<times> string \<times> uint256)" where
  "getWinner pid s =
     (if \<not> pollExists pid s then Inl (Revert ''Poll does not exist'')
      else let poll = polls s pid in
        case winnerLoop 0 (voteCounts poll) 0 0 of
          (maxVotes, winnerIndex) \<Rightarrow>
            if \<not> winnerIndex < length (options poll) then Inl (Panic 50)
            else Inr (of_nat winnerIndex, options poll ! winnerIndex, maxVotes))"

subsection \<open>Transactions and reachable ledger states\<close>

text \<open>
  The storage after a call: what the call returned when it succeeded, the storage before
  the call when it reverted.
\<close>

definition commit :: "Voting \<Rightarrow> error + Voting \<Rightarrow> Voting" where
  "commit s r = (case r of Inl err \<Rightarrow> s | Inr s' \<Rightarrow> s')"

text \<open>The ledger states that calls can produce from the freshly deployed contract.\<close>

inductive reachable :: "Voting \<Rightarrow> bool" where
  reach_deployed: "reachable deployed"
| reach_createPoll:
    "reachable s \<Longrightarrow> createPoll q opts dur e s = Inr (pid, s') \<Longrightarrow> reachable s'"
| reach_vote: "reachable s \<Longrightarrow> vote pid oi e s = Inr s' \<Longrightarrow> reachable s'"
| reach_endPoll: "reachable s \<Longrightarrow> endPoll pid e s = Inr s' \<Longrightarrow> reachable s'"

subsection \<open>Ledger invariant\<close>

text \<open>
  What holds of every stored poll: the counts add up to the number of voters, and there
  are as many counts as options, between 2 and 10. Slots outside \<open>1..pollCount\<close> are
  untouched.
\<close>

definition tallyOk :: "Poll \<Rightarrow> bool" where
  "tallyOk p \<longleftrightarrow> sum_list (map unat (voteCounts p)) = card {a. hasVoted p a}"

definition pollWf :: "Poll \<Rightarrow> bool" where
  "pollWf p \<longleftrightarrow>
     length (voteCounts p) = length (options p) \<and> 2 \<le> length (options p) \<and>
     length (options p) \<le> 10 \<and> tallyOk p"

definition ledgerInv :: "Voting \<Rightarrow> bool" where
  "ledgerInv s \<longleftrightarrow>
     (\<forall>p. p = 0 \<or> pollCount s < p \<longrightarrow> polls s p = emptyPoll) \<and>
     (\<forall>p. pollExists p s \<longrightarrow> pollWf (polls s p) \<and> id_poll (polls s p) = p)"

subsection \<open>Sample ledger states (test/Voting.test.js)\<close>

definition sampleQuestion :: string where
  "sampleQuestion = ''What is the best programming language?''"

definition sampleOptions :: "string list" where
  "sampleOptions = [''JavaScript'', ''Python'', ''Rust'', ''Go'']"

definition samplePoll :: Poll where
  "samplePoll = \<lparr>id_poll = 1, question = sampleQuestion, options = sampleOptions,
     voteCounts = [0, 0, 0, 0], creator = 1, endTime = 4600, active = True,
     hasVoted = (\<lambda>_. False), voterChoice = (\<lambda>_. 0)\<rparr>"

definition ledgerCreated :: Voting where
  "ledgerCreated = \<lparr>pollCount = 1, polls = (\<lambda>_. emptyPoll)(1 := samplePoll)\<rparr>"

definition ledgerVoted :: Voting where
  "ledgerVoted = \<lparr>pollCount = 1, polls = (\<lambda>_. emptyPoll)(1 := samplePoll\<lparr>
     hasVoted := (\<lambda>_. False)(2 := True), voterChoice := (\<lambda>_. 0)(2 := 2),
     voteCounts := [0, 0, 1, 0]\<rparr>)\<rparr>"

definition ledgerTied :: Voting where
  "ledgerTied = \<lparr>pollCount = 1, polls = (\<lambda>_. emptyPoll)(1 := samplePoll\<lparr>
     hasVoted := (\<lambda>_. False)(2 := True, 3 := True), voterChoice := (\<lambda>_. 0)(2 := 2, 3 := 0),
     voteCounts := [1, 0, 1, 0]\<rparr>)\<rparr>"

definition ledgerEnded :: Voting where
  "ledgerEnded = \<lparr>pollCount = 1, polls = (\<lambda>_. emptyPoll)(1 := samplePoll\<lparr>
     hasVoted := (\<lambda>_. False)(2 := True), voterChoice := (\<lambda>_. 0)(2 := 2),
     voteCounts := [0, 0, 1, 0], active := False\<rparr>)\<rparr>"

text \<open>
  Three polls seen at time 2000: the first runs for seven days, the second expired at 1060
  with its flag still set, the third was ended by its creator.
\<close>

definition ledgerThree :: Voting where
  "ledgerThree = \<lparr>pollCount = 3, polls = (\<lambda>_. emptyPoll)
     (1 := samplePoll\<lparr>endTime := 605800\<rparr>,
      2 := samplePoll\<lparr>id_poll := 2, endTime := 1060\<rparr>,
      3 := samplePoll\<lparr>id_poll := 3, active := False\<rparr>)\<rparr>"

section \<open>Properties\<close>

subsection \<open>The ledger invariant\<close>

lemma ledgerInv_empty:
  "ledgerInv s \<Longrightarrow> p = 0 \<or> pollCount s < p \<Longrightarrow> polls s p = emptyPoll"
  by (auto simp: ledgerInv_def)

lemma ledgerInv_wf: "ledgerInv s \<Longrightarrow> pollExists p s \<Longrightarrow> pollWf (polls s p)"
  by (simp add: ledgerInv_def)

lemma ledgerInv_id: "ledgerInv s \<Longrightarrow> pollExists p s \<Longrightarrow> id_poll (polls s p) = p"
  by (simp add: ledgerInv_def)

lemma not_pollExists: "\<not> pollExists p s \<longleftrightarrow> p = 0 \<or> pollCount s < p"
  by (auto simp: pollExists_def not_le word_gt_0)

lemma unat_succ: "unat (a :: uint256) + 1 < 2 ^ 256 \<Longrightarrow> unat (a + 1) = Suc (unat a)"
  using unat_add_lem [of a 1] by simp

lemma pushOptions_eq:
  "pushOptions i opts p =
     (if \<exists>x \<in> set (drop i opts). x = [] then Inl (Revert ''Option cannot be empty'')
      else Inr (p\<lparr>options := options p @ drop i opts,
                  voteCounts := voteCounts p @ replicate (length opts - i) 0\<rparr>))"
proof (induction i opts p rule: pushOptions.induct)
  case (1 i opts p)
  show ?case
  proof (cases "i < length opts")
    case False
    then show ?thesis by (simp add: pushOptions.simps)
  next
    case True
    then have d: "drop i opts = opts ! i # drop (Suc i) opts"
      by (simp add: Cons_nth_drop_Suc)
    from True have r: "replicate (length opts - i) (0::uint256) = 0 # replicate (length opts - Suc i) 0"
      by (metis Suc_diff_Suc replicate_Suc)
    show ?thesis
    proof (cases "opts ! i = []")
      case True
      with \<open>i < length opts\<close> d show ?thesis by (simp add: pushOptions.simps)
    next
      case False
      with \<open>i < length opts\<close> have "pushOptions i opts p = pushOptions (Suc i) opts
                (p\<lparr>options := options p @ [opts ! i], voteCounts := voteCounts p @ [0]\<rparr>)"
        by (simp add: pushOptions.simps [of i])
      also have "\<dots> = (if \<exists>x \<in> set (drop (Suc i) opts). x = [] then Inl (Revert ''Option cannot be empty'')
      else Inr (p\<lparr>options := options p @ drop i opts,
                  voteCounts := voteCounts p @ replicate (length opts - i) 0\<rparr>))"
        using "1.IH" [OF \<open>i < length opts\<close>] False by (simp add: d r)
      finally show ?thesis using False by (simp add: d)
    qed
  qed
qed

lemma createPoll_ok:
  assumes q: "q \<noteq> []" and n2: "2 \<le> length opts" and n10: "length opts \<le> 10"
    and d0: "0 < dur" and d1: "dur \<le> 10080"
    and ne: "\<forall>x \<in> set opts. x \<noteq> []"
    and pc: "unat (pollCount s) + 1 < 2 ^ 256"
    and ts: "unat (block_timestamp e) + 60 * unat dur < 2 ^ 256"
    and fresh: "polls s (pollCount s + 1) = emptyPoll"
  shows "createPoll q opts dur e s =
     Inr (pollCount s + 1,
          s\<lparr>pollCount := pollCount s + 1,
            polls := (polls s)(pollCount s + 1 :=
              \<lparr>id_poll = pollCount s + 1, question = q, options = opts,
               voteCounts = replicate (length opts) 0, creator = msg_sender e,
               endTime = block_timestamp e + dur * 60, active = True,
               hasVoted = (\<lambda>_. False), voterChoice = (\<lambda>_. 0)\<rparr>)\<rparr>)"
proof -
  from d1 have du: "unat dur \<le> 10080" by (simp add: word_le_nat_alt)
  then have m: "checked_mul dur 60 = Inr (dur * 60)" by (simp add: checked_mul_def)
  from du have um: "unat (dur * 60) = unat dur * 60"
    using unat_mult_lem [of dur 60] by simp
  from pc have a1: "checked_add (pollCount s) 1 = Inr (pollCount s + 1)"
    by (simp add: checked_add_def)
  from ts um have a2: "checked_add (block_timestamp e) (dur * 60) = Inr (block_timestamp e + dur * 60)"
    by (simp add: checked_add_def)
  show ?thesis
    unfolding createPoll_def using q n2 n10 d0 d1 ne
    by (simp add: a1 m a2 pushOptions_eq fresh emptyPoll_def)
qed

lemma voters_card_less:
  assumes "\<not> hv (v :: address)"
  shows "card {a. hv a} < 2 ^ 160"
proof -
  from assms have "{a. hv a} \<subset> (UNIV :: address set)" by auto
  then have "card {a. hv a} < card (UNIV :: address set)"
    by (intro psubset_card_mono) simp_all
  then show ?thesis by (simp add: card_word)
qed

lemma count_le_tally:
  assumes "i < length vc"
  shows "unat (vc ! i) \<le> sum_list (map unat vc)"
proof -
  from assms have "unat (vc ! i) \<in> set (map unat vc)" by (auto intro!: image_eqI)
  then show ?thesis by (simp add: member_le_sum_list)
qed

lemma tally_update:
  assumes "i < length vc" and "unat c = Suc (unat (vc ! i))"
  shows "sum_list (map unat (list_update vc i c)) = Suc (sum_list (map unat vc))"
proof -
  have "sum_list (map unat (list_update vc i c)) = sum_list (list_update (map unat vc) i (unat c))"
    by (simp add: map_update)
  also have "\<dots> = sum_list (map unat vc) + unat c - map unat vc ! i"
    using assms(1) by (simp add: sum_list_update)
  finally show ?thesis using assms by simp
qed

lemma voters_insert:
  assumes "\<not> hv (v :: address)"
  shows "card {a. (hv(v := True)) a} = Suc (card {a. hv a})"
proof -
  have "{a. (hv(v := True)) a} = insert v {a. hv a}" by auto
  with assms show ?thesis by simp
qed

lemma vote_no_overflow:
  assumes wf: "pollWf p" and nv: "\<not> hasVoted p v" and oi: "unat oi < length (options p)"
  shows "unat (voteCounts p ! unat oi) + 1 < 2 ^ 256"
proof -
  from wf oi have i: "unat oi < length (voteCounts p)" by (simp add: pollWf_def)
  from wf have "sum_list (map unat (voteCounts p)) = card {a. hasVoted p a}"
    by (simp add: pollWf_def tallyOk_def)
  with count_le_tally [OF i] voters_card_less [of "hasVoted p" v, OF nv]
  have "unat (voteCounts p ! unat oi) < 2 ^ 160" by simp
  moreover have "(2::nat) ^ 160 + 1 < 2 ^ 256" by simp
  ultimately show ?thesis by linarith
qed

lemma vote_ok:
  assumes inv: "ledgerInv s" and ex: "pollExists pid s"
    and act: "active (polls s pid)" and tm: "block_timestamp e < endTime (polls s pid)"
    and nv: "\<not> hasVoted (polls s pid) (msg_sender e)"
    and oi: "unat oi < length (options (polls s pid))"
  shows "vote pid oi e s =
     Inr (s\<lparr>polls := (polls s)(pid := (polls s pid)\<lparr>
            hasVoted := (hasVoted (polls s pid))(msg_sender e := True),
            voterChoice := (voterChoice (polls s pid))(msg_sender e := oi),
            voteCounts := list_update (voteCounts (polls s pid)) (unat oi)
                            (voteCounts (polls s pid) ! unat oi + 1)\<rparr>)\<rparr>)"
proof -
  from inv ex have wf: "pollWf (polls s pid)" by (simp add: ledgerInv_def)
  then have i: "unat oi < length (voteCounts (polls s pid))" using oi by (simp add: pollWf_def)
  from vote_no_overflow [OF wf nv oi]
  have c: "checked_add (voteCounts (polls s pid) ! unat oi) 1 = Inr (voteCounts (polls s pid) ! unat oi + 1)"
    by (simp add: checked_add_def)
  show ?thesis
    unfolding vote_def using ex act tm nv oi i
    by (simp add: pollActive_def hasNotVoted_def c Let_def)
qed

lemma pollWf_vote:
  assumes wf: "pollWf p" and nv: "\<not> hasVoted p v" and oi: "unat oi < length (options p)"
  shows "pollWf (p\<lparr>hasVoted := (hasVoted p)(v := True), voterChoice := ch,
            voteCounts := list_update (voteCounts p) (unat oi) (voteCounts p ! unat oi + 1)\<rparr>)"
proof -
  from wf oi have i: "unat oi < length (voteCounts p)" by (simp add: pollWf_def)
  have u: "unat (voteCounts p ! unat oi + 1) = Suc (unat (voteCounts p ! unat oi))"
    using vote_no_overflow [OF wf nv oi] by (rule unat_succ)
  from wf have "sum_list (map unat (voteCounts p)) = card {a. hasVoted p a}"
    by (simp add: pollWf_def tallyOk_def)
  with tally_update [OF i u] voters_insert [of "hasVoted p" v, OF nv]
  show ?thesis using wf by (simp add: pollWf_def tallyOk_def)
qed

lemma createPoll_InrD:
  assumes "createPoll q opts dur e s = Inr (pid, s')"
  shows "q \<noteq> [] \<and> 2 \<le> length opts \<and> length opts \<le> 10 \<and> 0 < dur \<and> dur \<le> 10080 \<and>
         (\<forall>x \<in> set opts. x \<noteq> []) \<and> unat (pollCount s) + 1 < 2 ^ 256 \<and>
         unat (block_timestamp e) + 60 * unat dur < 2 ^ 256"
proof -
  from assms have v: "q \<noteq> []" "2 \<le> length opts" "length opts \<le> 10" "0 < dur" "dur \<le> 10080"
    by (auto simp: createPoll_def split: if_splits)
  from v(5) have du: "unat dur \<le> 10080" by (simp add: word_le_nat_alt)
  then have um: "unat (dur * 60) = unat dur * 60"
    using unat_mult_lem [of dur 60] by simp
  from du have m: "checked_mul dur 60 = Inr (dur * 60)" by (simp add: checked_mul_def)
  from assms v m have pc: "unat (pollCount s) + 1 < 2 ^ 256"
    by (auto simp: createPoll_def checked_add_def split: if_splits sum.splits)
  then have a1: "checked_add (pollCount s) 1 = Inr (pollCount s + 1)"
    by (simp add: checked_add_def)
  from assms v m a1 have "unat (block_timestamp e) + unat (dur * 60) < 2 ^ 256"
    by (auto simp: createPoll_def checked_add_def [of "block_timestamp e"] split: if_splits sum.splits)
  with um have ts: "unat (block_timestamp e) + 60 * unat dur < 2 ^ 256" by simp
  then have a2: "checked_add (block_timestamp e) (dur * 60) = Inr (block_timestamp e + dur * 60)"
    using um by (simp add: checked_add_def)
  from assms v m a1 a2 have "\<forall>x \<in> set opts. x \<noteq> []"
    by (auto simp: createPoll_def pushOptions_eq split: if_splits sum.splits)
  with v pc ts show ?thesis by simp
qed

lemma pollWf_fresh:
  assumes "2 \<le> length opts" and "length opts \<le> 10"
  shows "pollWf \<lparr>id_poll = i, question = q, options = opts,
               voteCounts = replicate (length opts) 0, creator = c,
               endTime = t, active = a, hasVoted = (\<lambda>_. False), voterChoice = ch\<rparr>"
  using assms by (simp add: pollWf_def tallyOk_def)

lemma ledgerInv_createPoll:
  assumes inv: "ledgerInv s" and c: "createPoll q opts dur e s = Inr (pid, s')"
  shows "ledgerInv s'"
proof -
  note d = createPoll_InrD [OF c]
  from d have pc: "unat (pollCount s) + 1 < 2 ^ 256" by simp
  then have u: "unat (pollCount s + 1) = Suc (unat (pollCount s))" by (rule unat_succ)
  then have lt: "pollCount s < pollCount s + 1" by (simp add: word_less_nat_alt)
  with inv have fresh: "polls s (pollCount s + 1) = emptyPoll" by (simp add: ledgerInv_def)
  define S where "S = s\<lparr>pollCount := pollCount s + 1,
            polls := (polls s)(pollCount s + 1 :=
              \<lparr>id_poll = pollCount s + 1, question = q, options = opts,
               voteCounts = replicate (length opts) 0, creator = msg_sender e,
               endTime = block_timestamp e + dur * 60, active = True,
               hasVoted = (\<lambda>_. False), voterChoice = (\<lambda>_. 0)\<rparr>)\<rparr>"
  from d fresh have "createPoll q opts dur e s = Inr (pollCount s + 1, S)"
    unfolding S_def by (intro createPoll_ok) simp_all
  with c have "s' = S" by simp
  note s' = this [unfolded S_def]
  have e1: "polls s' p = emptyPoll" if "p = 0 \<or> pollCount s' < p" for p
  proof -
    from that u have "p \<noteq> pollCount s + 1" "p = 0 \<or> pollCount s < p"
      by (auto simp: s' word_less_nat_alt)
    with inv show ?thesis by (auto simp: s' ledgerInv_def)
  qed
  have e2: "pollWf (polls s' p) \<and> id_poll (polls s' p) = p" if "pollExists p s'" for p
  proof (cases "p = pollCount s + 1")
    case True
    with d show ?thesis by (simp add: s' pollWf_fresh)
  next
    case False
    then have "unat p \<noteq> unat (pollCount s + 1)" by (simp add: word_unat_eq_iff)
    with that u have "pollExists p s"
      by (auto simp: s' pollExists_def word_le_nat_alt word_less_nat_alt)
    with inv False show ?thesis by (simp add: s' ledgerInv_def)
  qed
  from e1 e2 show ?thesis unfolding ledgerInv_def by blast
qed

lemma vote_InrD:
  assumes "vote pid oi e s = Inr s'"
  shows "pollExists pid s \<and> active (polls s pid) \<and> block_timestamp e < endTime (polls s pid) \<and>
         \<not> hasVoted (polls s pid) (msg_sender e) \<and> unat oi < length (options (polls s pid))"
  using assms
  by (auto simp: vote_def pollActive_def hasNotVoted_def Let_def split: if_splits option.splits)

lemma ledgerInv_vote:
  assumes inv: "ledgerInv s" and v: "vote pid oi e s = Inr s'"
  shows "ledgerInv s'"
proof -
  note d = vote_InrD [OF v]
  from inv d have wf: "pollWf (polls s pid)" and idp: "id_poll (polls s pid) = pid"
    by (simp_all add: ledgerInv_def)
  define S where "S = s\<lparr>polls := (polls s)(pid := (polls s pid)\<lparr>
            hasVoted := (hasVoted (polls s pid))(msg_sender e := True),
            voterChoice := (voterChoice (polls s pid))(msg_sender e := oi),
            voteCounts := list_update (voteCounts (polls s pid)) (unat oi)
                            (voteCounts (polls s pid) ! unat oi + 1)\<rparr>)\<rparr>"
  from d have "vote pid oi e s = Inr S"
    unfolding S_def by (intro vote_ok [OF inv]) simp_all
  with v have "s' = S" by simp
  note s' = this [unfolded S_def]
  from d have ne: "pid \<noteq> 0" "\<not> pollCount s < pid" by (auto simp: pollExists_def)
  from d have w: "pollWf ((polls s pid)\<lparr>
            hasVoted := (hasVoted (polls s pid))(msg_sender e := True),
            voterChoice := (voterChoice (polls s pid))(msg_sender e := oi),
            voteCounts := list_update (voteCounts (polls s pid)) (unat oi)
                            (voteCounts (polls s pid) ! unat oi + 1)\<rparr>)"
    by (intro pollWf_vote [OF wf]) simp_all
  from inv ne w idp show ?thesis
    unfolding ledgerInv_def s' by (auto simp: pollExists_def)
qed

lemma endPoll_eq:
  "endPoll pid e s =
     (if \<not> pollExists pid s then Inl (Revert ''Poll does not exist'')
      else if msg_sender e \<noteq> creator (polls s pid) then Inl (Revert ''Only creator can end poll'')
      else if \<not> active (polls s pid) then Inl (Revert ''Poll already ended'')
      else Inr (s\<lparr>polls := (polls s)(pid := (polls s pid)\<lparr>active := False\<rparr>)\<rparr>))"
  by (simp add: endPoll_def Let_def)

lemma ledgerInv_endPoll:
  assumes inv: "ledgerInv s" and v: "endPoll pid e s = Inr s'"
  shows "ledgerInv s'"
proof -
  from v have ex: "pollExists pid s"
    and s': "s' = s\<lparr>polls := (polls s)(pid := (polls s pid)\<lparr>active := False\<rparr>)\<rparr>"
    by (auto simp: endPoll_eq split: if_splits)
  from ex have ne: "pid \<noteq> 0" "\<not> pollCount s < pid" by (auto simp: pollExists_def)
  from inv ex have "pollWf (polls s pid)" "id_poll (polls s pid) = pid"
    by (simp_all add: ledgerInv_def)
  then have "pollWf ((polls s pid)\<lparr>active := False\<rparr>)" by (simp add: pollWf_def tallyOk_def)
  with inv ne \<open>id_poll (polls s pid) = pid\<close> show ?thesis
    unfolding ledgerInv_def s' by (auto simp: pollExists_def)
qed

lemma ledgerInv_deployed: "ledgerInv deployed"
  by (auto simp: ledgerInv_def deployed_def pollExists_def word_le_nat_alt word_less_nat_alt)

lemma reachable_ledgerInv: "reachable s \<Longrightarrow> ledgerInv s"
proof (induction rule: reachable.induct)
  case reach_deployed
  show ?case by (rule ledgerInv_deployed)
next
  case (reach_createPoll s q opts dur e pid s')
  then show ?case by (blast intro: ledgerInv_createPoll)
next
  case (reach_vote s pid oi e s')
  then show ?case by (blast intro: ledgerInv_vote)
next
  case (reach_endPoll s pid e s')
  then show ?case by (blast intro: ledgerInv_endPoll)
qed

subsection \<open>The sample run\<close>

lemma ledgerCreated_step:
  "createPoll sampleQuestion sampleOptions 60 \<lparr>msg_sender = 1, block_timestamp = 1000\<rparr> deployed
     = Inr (1, ledgerCreated)"
  by (simp add: createPoll_def checked_add_def checked_mul_def pushOptions.simps deployed_def
        emptyPoll_def ledgerCreated_def samplePoll_def sampleQuestion_def sampleOptions_def)

lemma ledgerVoted_step:
  "vote 1 2 \<lparr>msg_sender = 2, block_timestamp = 1100\<rparr> ledgerCreated = Inr ledgerVoted"
  by (simp add: vote_def pollExists_def pollActive_def hasNotVoted_def checked_add_def
        ledgerCreated_def ledgerVoted_def samplePoll_def sampleOptions_def)

lemma ledgerTied_step:
  "vote 1 0 \<lparr>msg_sender = 3, block_timestamp = 1200\<rparr> ledgerVoted = Inr ledgerTied"
  by (simp add: vote_def pollExists_def pollActive_def hasNotVoted_def checked_add_def
        ledgerVoted_def ledgerTied_def samplePoll_def sampleOptions_def)

lemma ledgerEnded_step:
  "endPoll 1 \<lparr>msg_sender = 1, block_timestamp = 5000\<rparr> ledgerVoted = Inr ledgerEnded"
  by (simp add: endPoll_def pollExists_def ledgerVoted_def ledgerEnded_def samplePoll_def)

lemma reachable_ledgerCreated: "reachable ledgerCreated"
  using reach_createPoll [OF reach_deployed ledgerCreated_step] .

lemma reachable_ledgerVoted: "reachable ledgerVoted"
  using reach_vote [OF reachable_ledgerCreated ledgerVoted_step] .

lemma reachable_ledgerTied: "reachable ledgerTied"
  using reach_vote [OF reachable_ledgerVoted ledgerTied_step] .

lemma reachable_ledgerEnded: "reachable ledgerEnded"
  using reach_endPoll [OF reachable_ledgerVoted ledgerEnded_step] .

subsection \<open>Tallies\<close>

text \<open>
  Claim C7. In every reachable ledger state, the vote counts of every poll add up to the
  number of distinct addresses recorded as having voted on it, and every count is
  non-negative. The predicate holds after deployment and after \<open>createPoll\<close>
  (zeroed counts, no voter), and each successful \<open>vote\<close> and \<open>endPoll\<close> keeps it.
\<close>

theorem tally_matches_voters:
  assumes "reachable s"
  shows "sum_list (map unat (voteCounts (polls s p))) = card {a. hasVoted (polls s p) a}
         \<and> (\<forall>c \<in> set (voteCounts (polls s p)). 0 \<le> uint c)"
proof -
  from assms have inv: "ledgerInv s" by (rule reachable_ledgerInv)
  have "tallyOk (polls s p)"
  proof (cases "pollExists p s")
    case True
    with inv show ?thesis by (simp add: ledgerInv_wf [unfolded pollWf_def])
  next
    case False
    then have "p = 0 \<or> pollCount s < p" by (simp add: not_pollExists)
    with inv have "polls s p = emptyPoll" by (rule ledgerInv_empty)
    then show ?thesis by (simp add: tallyOk_def emptyPoll_def)
  qed
  then show ?thesis by (simp add: tallyOk_def)
qed

theorem tally_matches_voters_witness:
  "reachable ledgerVoted \<and>
   sum_list (map unat (voteCounts (polls ledgerVoted 1))) = 1 \<and>
   card {a. hasVoted (polls ledgerVoted 1) a} = 1"
proof -
  have r: "reachable ledgerVoted" by (rule reachable_ledgerVoted)
  have s: "sum_list (map unat (voteCounts (polls ledgerVoted 1))) = 1"
    by (simp add: ledgerVoted_def)
  from tally_matches_voters [OF r, of 1] s r show ?thesis by simp
qed

subsection \<open>Voting\<close>

lemma vote_Inr_state:
  assumes "vote pid oi e s = Inr s'"
  shows "s' = s\<lparr>polls := (polls s)(pid := (polls s pid)\<lparr>
            hasVoted := (hasVoted (polls s pid))(msg_sender e := True),
            voterChoice := (voterChoice (polls s pid))(msg_sender e := oi),
            voteCounts := list_update (voteCounts (polls s pid)) (unat oi)
                            (voteCounts (polls s pid) ! unat oi + 1)\<rparr>)\<rparr>"
  using assms
  by (auto simp: vote_def Let_def checked_add_def split: if_splits option.splits)

text \<open>
  Claim C1. On a poll that exists in a reachable ledger, when the caller meets the
  preconditions of \<open>vote\<close> (poll active and not expired, caller has not voted, option
  index in range), the call succeeds; it raises the chosen count by exactly one, leaves the
  other counts as they were, marks the caller as having voted, and \<open>getVoterChoice\<close>
  afterwards returns the chosen index.
\<close>

theorem vote_counts_one:
  assumes r: "reachable s" and ex: "pollExists pid s"
    and act: "active (polls s pid)" and tm: "block_timestamp e < endTime (polls s pid)"
    and nv: "\<not> hasVoted (polls s pid) (msg_sender e)"
    and oi: "unat oi < length (options (polls s pid))"
  shows "\<exists>s'. vote pid oi e s = Inr s' \<and>
     length (voteCounts (polls s' pid)) = length (voteCounts (polls s pid)) \<and>
     unat (voteCounts (polls s' pid) ! unat oi) = unat (voteCounts (polls s pid) ! unat oi) + 1 \<and>
     (\<forall>j. j \<noteq> unat oi \<longrightarrow> voteCounts (polls s' pid) ! j = voteCounts (polls s pid) ! j) \<and>
     hasVoted_view pid (msg_sender e) s' = Inr True \<and>
     getVoterChoice pid (msg_sender e) s' = Inr oi"
proof -
  from r have inv: "ledgerInv s" by (rule reachable_ledgerInv)
  then have wf: "pollWf (polls s pid)" using ex by (rule ledgerInv_wf)
  then have i: "unat oi < length (voteCounts (polls s pid))" using oi by (simp add: pollWf_def)
  have u: "unat (voteCounts (polls s pid) ! unat oi + 1) = Suc (unat (voteCounts (polls s pid) ! unat oi))"
    using vote_no_overflow [OF wf nv oi] by (rule unat_succ)
  define s' where "s' = s\<lparr>polls := (polls s)(pid := (polls s pid)\<lparr>
            hasVoted := (hasVoted (polls s pid))(msg_sender e := True),
            voterChoice := (voterChoice (polls s pid))(msg_sender e := oi),
            voteCounts := list_update (voteCounts (polls s pid)) (unat oi)
                            (voteCounts (polls s pid) ! unat oi + 1)\<rparr>)\<rparr>"
  have v: "vote pid oi e s = Inr s'"
    unfolding s'_def by (rule vote_ok [OF inv ex act tm nv oi])
  have ex': "pollExists pid s'" using ex by (simp add: s'_def pollExists_def)
  have "length (voteCounts (polls s' pid)) = length (voteCounts (polls s pid))"
    by (simp add: s'_def)
  moreover have "unat (voteCounts (polls s' pid) ! unat oi) = unat (voteCounts (polls s pid) ! unat oi) + 1"
    using i u by (simp add: s'_def)
  moreover have "\<forall>j. j \<noteq> unat oi \<longrightarrow> voteCounts (polls s' pid) ! j = voteCounts (polls s pid) ! j"
    by (simp add: s'_def)
  moreover have "hasVoted_view pid (msg_sender e) s' = Inr True"
    using ex' by (simp add: hasVoted_view_def) (simp add: s'_def)
  moreover have "getVoterChoice pid (msg_sender e) s' = Inr oi"
    using ex' by (simp add: getVoterChoice_def) (simp add: s'_def)
  ultimately show ?thesis using v by blast
qed

theorem vote_counts_one_witness:
  "reachable ledgerCreated \<and> pollExists 1 ledgerCreated \<and> active (polls ledgerCreated 1) \<and>
   (1100 :: uint256) < endTime (polls ledgerCreated 1) \<and>
   \<not> hasVoted (polls ledgerCreated 1) 2 \<and>
   unat (2 :: uint256) < length (options (polls ledgerCreated 1)) \<and>
   vote 1 2 \<lparr>msg_sender = 2, block_timestamp = 1100\<rparr> ledgerCreated = Inr ledgerVoted \<and>
   voteCounts (polls ledgerCreated 1) = [0, 0, 0, 0] \<and>
   voteCounts (polls ledgerVoted 1) = [0, 0, 1, 0] \<and>
   hasVoted_view 1 2 ledgerVoted = Inr True \<and>
   getVoterChoice 1 2 ledgerVoted = Inr 2"
proof -
  have h: "pollExists 1 ledgerCreated" "active (polls ledgerCreated 1)"
    "block_timestamp \<lparr>msg_sender = 2, block_timestamp = 1100\<rparr> < endTime (polls ledgerCreated 1)"
    "\<not> hasVoted (polls ledgerCreated 1) (msg_sender \<lparr>msg_sender = 2, block_timestamp = 1100\<rparr>)"
    "unat (2 :: uint256) < length (options (polls ledgerCreated 1))"
    by (simp_all add: ledgerCreated_def samplePoll_def sampleOptions_def pollExists_def)
  from vote_counts_one [OF reachable_ledgerCreated h]
  obtain s' where s': "vote 1 2 \<lparr>msg_sender = 2, block_timestamp = 1100\<rparr> ledgerCreated = Inr s'"
    and c: "hasVoted_view 1 (msg_sender \<lparr>msg_sender = 2, block_timestamp = 1100\<rparr>) s' = Inr True"
      "getVoterChoice 1 (msg_sender \<lparr>msg_sender = 2, block_timestamp = 1100\<rparr>) s' = Inr 2"
    by blast
  from s' have e: "s' = ledgerVoted" by (simp add: ledgerVoted_step)
  have vc: "voteCounts (polls ledgerCreated 1) = [0, 0, 0, 0]"
    "voteCounts (polls ledgerVoted 1) = [0, 0, 1, 0]"
    by (simp_all add: ledgerCreated_def ledgerVoted_def samplePoll_def)
  from h c vc reachable_ledgerCreated ledgerVoted_step show ?thesis
    unfolding e by simp
qed

text \<open>
  Claim C10. A successful \<open>vote\<close> on poll \<open>pid\<close> by the caller leaves \<open>pollCount\<close> and every
  other poll as they were; in poll \<open>pid\<close> the id, question, options, creator, end time and
  active flag are unchanged, as are the vote records of every other address and every count
  but the chosen one.
\<close>

theorem vote_frame:
  assumes "vote pid oi e s = Inr s'"
  shows "pollCount s' = pollCount s \<and>
     (\<forall>p. p \<noteq> pid \<longrightarrow> polls s' p = polls s p) \<and>
     id_poll (polls s' pid) = id_poll (polls s pid) \<and>
     question (polls s' pid) = question (polls s pid) \<and>
     options (polls s' pid) = options (polls s pid) \<and>
     creator (polls s' pid) = creator (polls s pid) \<and>
     endTime (polls s' pid) = endTime (polls s pid) \<and>
     active (polls s' pid) = active (polls s pid) \<and>
     (\<forall>a. a \<noteq> msg_sender e \<longrightarrow>
        hasVoted (polls s' pid) a = hasVoted (polls s pid) a \<and>
        voterChoice (polls s' pid) a = voterChoice (polls s pid) a) \<and>
     length (voteCounts (polls s' pid)) = length (voteCounts (polls s pid)) \<and>
     (\<forall>j. j \<noteq> unat oi \<longrightarrow> voteCounts (polls s' pid) ! j = voteCounts (polls s pid) ! j)"
proof -
  note s' = vote_Inr_state [OF assms]
  have "pollCount s' = pollCount s" by (subst s') simp
  moreover have "\<forall>p. p \<noteq> pid \<longrightarrow> polls s' p = polls s p" by (subst s') simp
  moreover have "id_poll (polls s' pid) = id_poll (polls s pid)"
    "question (polls s' pid) = question (polls s pid)"
    "options (polls s' pid) = options (polls s pid)"
    "creator (polls s' pid) = creator (polls s pid)"
    "endTime (polls s' pid) = endTime (polls s pid)"
    "active (polls s' pid) = active (polls s pid)"
    by (subst s', simp)+
  moreover have "\<forall>a. a \<noteq> msg_sender e \<longrightarrow>
        hasVoted (polls s' pid) a = hasVoted (polls s pid) a \<and>
        voterChoice (polls s' pid) a = voterChoice (polls s pid) a"
    by (subst s', subst s') simp
  moreover have "length (voteCounts (polls s' pid)) = length (voteCounts (polls s pid))"
    by (subst s') simp
  moreover have "\<forall>j. j \<noteq> unat oi \<longrightarrow> voteCounts (polls s' pid) ! j = voteCounts (polls s pid) ! j"
    by (subst s') simp
  ultimately show ?thesis by blast
qed

theorem vote_frame_witness:
  "vote 1 2 \<lparr>msg_sender = 2, block_timestamp = 1100\<rparr> ledgerCreated = Inr ledgerVoted \<and>
   pollCount ledgerVoted = pollCount ledgerCreated \<and>
   polls ledgerVoted 7 = polls ledgerCreated 7 \<and>
   options (polls ledgerVoted 1) = options (polls ledgerCreated 1) \<and>
   active (polls ledgerVoted 1) = active (polls ledgerCreated 1) \<and>
   hasVoted (polls ledgerVoted 1) 3 = hasVoted (polls ledgerCreated 1) 3 \<and>
   voteCounts (polls ledgerVoted 1) ! 0 = voteCounts (polls ledgerCreated 1) ! 0"
  using vote_frame [OF ledgerVoted_step] ledgerVoted_step by simp

text \<open>
  Claim C2. \<open>vote\<close> checks its preconditions in a fixed order and each failure has its own
  revert reason: an id outside \<open>1..pollCount\<close> gives "Poll does not exist" (NotFoundError);
  then a cleared \<open>active\<close> flag gives "Poll is not active" and, with the flag still set, a
  current time at or past \<open>endTime\<close> gives "Poll has ended" (both NotActiveError); then a
  caller with a vote record gives "Already voted" (DuplicateVoteError); then an option index
  at or past the number of options gives "Invalid option" (InvalidOptionError). A rejected
  call leaves the ledger as it was.
\<close>

theorem vote_rejections:
  "(pid = 0 \<or> pollCount s < pid \<longrightarrow>
      vote pid oi e s = Inl (Revert ''Poll does not exist'')) \<and>
   (pollExists pid s \<and> \<not> active (polls s pid) \<longrightarrow>
      vote pid oi e s = Inl (Revert ''Poll is not active'')) \<and>
   (pollExists pid s \<and> active (polls s pid) \<and> endTime (polls s pid) \<le> block_timestamp e \<longrightarrow>
      vote pid oi e s = Inl (Revert ''Poll has ended'')) \<and>
   (pollExists pid s \<and> active (polls s pid) \<and> block_timestamp e < endTime (polls s pid) \<and>
    hasVoted (polls s pid) (msg_sender e) \<longrightarrow>
      vote pid oi e s = Inl (Revert ''Already voted'')) \<and>
   (pollExists pid s \<and> active (polls s pid) \<and> block_timestamp e < endTime (polls s pid) \<and>
    \<not> hasVoted (polls s pid) (msg_sender e) \<and> length (options (polls s pid)) \<le> unat oi \<longrightarrow>
      vote pid oi e s = Inl (Revert ''Invalid option'')) \<and>
   (\<forall>err. vote pid oi e s = Inl err \<longrightarrow> commit s (vote pid oi e s) = s) \<and>
   distinct [''Poll does not exist'', ''Poll is not active'', ''Poll has ended'',
             ''Already voted'', ''Invalid option'']"
proof -
  have "vote pid oi e s = Inl (Revert ''Poll does not exist'')" if "pid = 0 \<or> pollCount s < pid"
  proof -
    from that have "\<not> pollExists pid s" by (simp add: not_pollExists)
    then show ?thesis by (simp add: vote_def)
  qed
  moreover have "vote pid oi e s = Inl (Revert ''Poll is not active'')"
    if "pollExists pid s \<and> \<not> active (polls s pid)"
    using that by (simp add: vote_def pollActive_def)
  moreover have "vote pid oi e s = Inl (Revert ''Poll has ended'')"
    if "pollExists pid s \<and> active (polls s pid) \<and> endTime (polls s pid) \<le> block_timestamp e"
    using that by (simp add: vote_def pollActive_def not_less)
  moreover have "vote pid oi e s = Inl (Revert ''Already voted'')"
    if "pollExists pid s \<and> active (polls s pid) \<and> block_timestamp e < endTime (polls s pid) \<and>
        hasVoted (polls s pid) (msg_sender e)"
    using that by (simp add: vote_def pollActive_def hasNotVoted_def)
  moreover have "vote pid oi e s = Inl (Revert ''Invalid option'')"
    if "pollExists pid s \<and> active (polls s pid) \<and> block_timestamp e < endTime (polls s pid) \<and>
        \<not> hasVoted (polls s pid) (msg_sender e) \<and> length (options (polls s pid)) \<le> unat oi"
    using that by (simp add: vote_def pollActive_def hasNotVoted_def Let_def not_less)
  moreover have "\<forall>err. vote pid oi e s = Inl err \<longrightarrow> commit s (vote pid oi e s) = s"
    by (simp add: commit_def)
  moreover have "distinct [''Poll does not exist'', ''Poll is not active'', ''Poll has ended'',
             ''Already voted'', ''Invalid option'']"
    by simp
  ultimately show ?thesis by blast
qed

theorem vote_rejections_witness:
  "vote 0 0 \<lparr>msg_sender = 2, block_timestamp = 1100\<rparr> ledgerCreated
     = Inl (Revert ''Poll does not exist'') \<and>
   vote 2 0 \<lparr>msg_sender = 2, block_timestamp = 1100\<rparr> ledgerCreated
     = Inl (Revert ''Poll does not exist'') \<and>
   vote 1 0 \<lparr>msg_sender = 3, block_timestamp = 1100\<rparr> ledgerEnded
     = Inl (Revert ''Poll is not active'') \<and>
   active (polls ledgerCreated 1) \<and>
   vote 1 0 \<lparr>msg_sender = 2, block_timestamp = 4600\<rparr> ledgerCreated
     = Inl (Revert ''Poll has ended'') \<and>
   vote 1 1 \<lparr>msg_sender = 2, block_timestamp = 1200\<rparr> ledgerVoted
     = Inl (Revert ''Already voted'') \<and>
   vote 1 4 \<lparr>msg_sender = 2, block_timestamp = 1100\<rparr> ledgerCreated
     = Inl (Revert ''Invalid option'') \<and>
   commit ledgerCreated (vote 1 4 \<lparr>msg_sender = 2, block_timestamp = 1100\<rparr> ledgerCreated)
     = ledgerCreated"
proof -
  have a: "active (polls ledgerCreated 1)" by (simp add: ledgerCreated_def samplePoll_def)
  have "vote 0 0 \<lparr>msg_sender = 2, block_timestamp = 1100\<rparr> ledgerCreated
     = Inl (Revert ''Poll does not exist'')"
    using vote_rejections [of 0 ledgerCreated 0 "\<lparr>msg_sender = 2, block_timestamp = 1100\<rparr>"]
    by simp
  moreover have "vote 2 0 \<lparr>msg_sender = 2, block_timestamp = 1100\<rparr> ledgerCreated
     = Inl (Revert ''Poll does not exist'')"
    using vote_rejections [of 2 ledgerCreated 0 "\<lparr>msg_sender = 2, block_timestamp = 1100\<rparr>"]
    by (simp add: ledgerCreated_def)
  moreover have "vote 1 0 \<lparr>msg_sender = 3, block_timestamp = 1100\<rparr> ledgerEnded
     = Inl (Revert ''Poll is not active'')"
    using vote_rejections [of 1 ledgerEnded 0 "\<lparr>msg_sender = 3, block_timestamp = 1100\<rparr>"]
    by (simp add: ledgerEnded_def samplePoll_def pollExists_def)
  moreover have "vote 1 0 \<lparr>msg_sender = 2, block_timestamp = 4600\<rparr> ledgerCreated
     = Inl (Revert ''Poll has ended'')"
    using vote_rejections [of 1 ledgerCreated 0 "\<lparr>msg_sender = 2, block_timestamp = 4600\<rparr>"]
    by (simp add: ledgerCreated_def samplePoll_def pollExists_def)
  moreover have "vote 1 1 \<lparr>msg_sender = 2, block_timestamp = 1200\<rparr> ledgerVoted
     = Inl (Revert ''Already voted'')"
    using vote_rejections [of 1 ledgerVoted 1 "\<lparr>msg_sender = 2, block_timestamp = 1200\<rparr>"]
    by (simp add: ledgerVoted_def samplePoll_def pollExists_def)
  moreover have i: "vote 1 4 \<lparr>msg_sender = 2, block_timestamp = 1100\<rparr> ledgerCreated
     = Inl (Revert ''Invalid option'')"
    using vote_rejections [of 1 ledgerCreated 4 "\<lparr>msg_sender = 2, block_timestamp = 1100\<rparr>"]
    by (simp add: ledgerCreated_def samplePoll_def sampleOptions_def pollExists_def)
  moreover have "commit ledgerCreated (vote 1 4 \<lparr>msg_sender = 2, block_timestamp = 1100\<rparr> ledgerCreated)
     = ledgerCreated"
    using vote_rejections [of 1 ledgerCreated 4 "\<lparr>msg_sender = 2, block_timestamp = 1100\<rparr>"] i
    by simp
  ultimately show ?thesis using a by simp
qed

subsection \<open>Ending a poll\<close>

text \<open>
  Claim C6. On an existing poll, \<open>endPoll\<close> succeeds exactly when the caller is the poll's
  creator and the stored \<open>active\<close> flag is set, whatever the current time is; its only effect
  is to clear that flag. A caller other than the creator is rejected with "Only creator can
  end poll" (AuthorizationError); the creator on a poll whose flag is already cleared is
  rejected with "Poll already ended" (AlreadyEndedError), so after a successful \<open>endPoll\<close>
  every further \<open>endPoll\<close> by the creator is rejected.
\<close>

theorem endPoll_behaviour:
  assumes ex: "pollExists pid s"
  shows "((\<exists>s'. endPoll pid e s = Inr s') \<longleftrightarrow>
            msg_sender e = creator (polls s pid) \<and> active (polls s pid)) \<and>
     (msg_sender e = creator (polls s pid) \<and> active (polls s pid) \<longrightarrow>
        endPoll pid e s = Inr (s\<lparr>polls := (polls s)(pid := (polls s pid)\<lparr>active := False\<rparr>)\<rparr>)) \<and>
     (msg_sender e \<noteq> creator (polls s pid) \<longrightarrow>
        endPoll pid e s = Inl (Revert ''Only creator can end poll'')) \<and>
     (msg_sender e = creator (polls s pid) \<and> \<not> active (polls s pid) \<longrightarrow>
        endPoll pid e s = Inl (Revert ''Poll already ended'')) \<and>
     (\<forall>s' e'. endPoll pid e s = Inr s' \<and> msg_sender e' = creator (polls s' pid) \<longrightarrow>
        endPoll pid e' s' = Inl (Revert ''Poll already ended''))"
proof -
  have 1: "(\<exists>s'. endPoll pid e s = Inr s') \<longleftrightarrow>
            msg_sender e = creator (polls s pid) \<and> active (polls s pid)"
    using ex by (auto simp: endPoll_eq)
  have 2: "endPoll pid e s = Inr (s\<lparr>polls := (polls s)(pid := (polls s pid)\<lparr>active := False\<rparr>)\<rparr>)"
    if "msg_sender e = creator (polls s pid) \<and> active (polls s pid)"
    using ex that by (simp add: endPoll_eq)
  have 3: "endPoll pid e s = Inl (Revert ''Only creator can end poll'')"
    if "msg_sender e \<noteq> creator (polls s pid)"
    using ex that by (simp add: endPoll_eq)
  have 4: "endPoll pid e s = Inl (Revert ''Poll already ended'')"
    if "msg_sender e = creator (polls s pid) \<and> \<not> active (polls s pid)"
    using ex that by (simp add: endPoll_eq)
  have 5: "endPoll pid e' s' = Inl (Revert ''Poll already ended'')"
    if "endPoll pid e s = Inr s' \<and> msg_sender e' = creator (polls s' pid)" for s' e'
  proof -
    from that ex have s': "s' = s\<lparr>polls := (polls s)(pid := (polls s pid)\<lparr>active := False\<rparr>)\<rparr>"
      by (auto simp: endPoll_eq split: if_splits)
    then have "pollExists pid s'" "\<not> active (polls s' pid)"
      using ex by (simp_all add: pollExists_def)
    with that show ?thesis by (simp add: endPoll_eq)
  qed
  from 1 2 3 4 5 show ?thesis by blast
qed

theorem endPoll_behaviour_witness:
  "pollExists 1 ledgerVoted \<and>
   endTime (polls ledgerVoted 1) < 5000 \<and>
   endPoll 1 \<lparr>msg_sender = 1, block_timestamp = 5000\<rparr> ledgerVoted = Inr ledgerEnded \<and>
   ledgerEnded = ledgerVoted\<lparr>polls := (polls ledgerVoted)(1 := (polls ledgerVoted 1)\<lparr>active := False\<rparr>)\<rparr> \<and>
   endPoll 1 \<lparr>msg_sender = 2, block_timestamp = 1100\<rparr> ledgerVoted
     = Inl (Revert ''Only creator can end poll'') \<and>
   endPoll 1 \<lparr>msg_sender = 1, block_timestamp = 5001\<rparr> ledgerEnded
     = Inl (Revert ''Poll already ended'')"
proof -
  have ex: "pollExists 1 ledgerVoted" by (simp add: ledgerVoted_def pollExists_def)
  have t: "endTime (polls ledgerVoted 1) < 5000" by (simp add: ledgerVoted_def samplePoll_def)
  note b = endPoll_behaviour [OF ex]
  have c: "creator (polls ledgerVoted 1) = 1" "active (polls ledgerVoted 1)"
    "creator (polls ledgerEnded 1) = 1"
    by (simp_all add: ledgerVoted_def ledgerEnded_def samplePoll_def)
  have 1: "endPoll 1 \<lparr>msg_sender = 1, block_timestamp = 5000\<rparr> ledgerVoted
     = Inr (ledgerVoted\<lparr>polls := (polls ledgerVoted)(1 := (polls ledgerVoted 1)\<lparr>active := False\<rparr>)\<rparr>)"
    using b [of "\<lparr>msg_sender = 1, block_timestamp = 5000\<rparr>"] c by simp
  with ledgerEnded_step have 2: "ledgerEnded =
      ledgerVoted\<lparr>polls := (polls ledgerVoted)(1 := (polls ledgerVoted 1)\<lparr>active := False\<rparr>)\<rparr>"
    by simp
  have 3: "endPoll 1 \<lparr>msg_sender = 2, block_timestamp = 1100\<rparr> ledgerVoted
     = Inl (Revert ''Only creator can end poll'')"
    using b [of "\<lparr>msg_sender = 2, block_timestamp = 1100\<rparr>"] c by simp
  have 4: "endPoll 1 \<lparr>msg_sender = 1, block_timestamp = 5001\<rparr> ledgerEnded
     = Inl (Revert ''Poll already ended'')"
    using b [of "\<lparr>msg_sender = 1, block_timestamp = 5000\<rparr>"] c ledgerEnded_step
    by (auto simp del: One_nat_def)
  from ex t ledgerEnded_step 2 3 4 show ?thesis by simp
qed

subsection \<open>Winner and snapshot\<close>

lemma winnerLoop_inv:
  assumes "\<forall>j<i. vc ! j \<le> m" and "\<forall>j<w. vc ! j < m"
    and "(m = 0 \<and> w = 0) \<or> (w < i \<and> vc ! w = m)" and "i \<le> length vc"
  shows "case winnerLoop i vc m w of (m', w') \<Rightarrow>
           (\<forall>j<length vc. vc ! j \<le> m') \<and> (\<forall>j<w'. vc ! j < m') \<and>
           ((m' = 0 \<and> w' = 0) \<or> (w' < length vc \<and> vc ! w' = m'))"
  using assms
proof (induction i vc m w rule: winnerLoop.induct)
  case (1 i vc m w)
  show ?case
  proof (cases "i < length vc")
    case False
    then have e: "winnerLoop i vc m w = (m, w)" by (simp add: winnerLoop.simps [of i])
    from False "1.prems" have "i = length vc" by simp
    with "1.prems" show ?thesis unfolding e by simp
  next
    case True
    show ?thesis
    proof (cases "m < vc ! i")
      case gt: True
      have a: "\<forall>j<Suc i. vc ! j \<le> vc ! i"
      proof (intro allI impI)
        fix j assume "j < Suc i"
        then consider "j < i" | "j = i" by linarith
        then show "vc ! j \<le> vc ! i"
        proof cases
          case 1
          with "1.prems"(1) have "vc ! j \<le> m" by simp
          with gt show ?thesis by simp
        qed simp
      qed
      have b: "\<forall>j<i. vc ! j < vc ! i"
      proof (intro allI impI)
        fix j assume "j < i"
        with "1.prems"(1) have "vc ! j \<le> m" by simp
        with gt show "vc ! j < vc ! i" by simp
      qed
      have "case winnerLoop (Suc i) vc (vc ! i) i of (m', w') \<Rightarrow>
           (\<forall>j<length vc. vc ! j \<le> m') \<and> (\<forall>j<w'. vc ! j < m') \<and>
           ((m' = 0 \<and> w' = 0) \<or> (w' < length vc \<and> vc ! w' = m'))"
        using True by (intro "1.IH"(1) [OF True gt] a b) simp_all
      with True gt show ?thesis by (simp add: winnerLoop.simps [of i])
    next
      case le: False
      have a: "\<forall>j<Suc i. vc ! j \<le> m"
      proof (intro allI impI)
        fix j assume "j < Suc i"
        then consider "j < i" | "j = i" by linarith
        then show "vc ! j \<le> m"
        proof cases
          case 1
          with "1.prems"(1) show ?thesis by simp
        next
          case 2
          with le show ?thesis by simp
        qed
      qed
      have c: "(m = 0 \<and> w = 0) \<or> (w < Suc i \<and> vc ! w = m)"
        using "1.prems"(3) by auto
      have "case winnerLoop (Suc i) vc m w of (m', w') \<Rightarrow>
           (\<forall>j<length vc. vc ! j \<le> m') \<and> (\<forall>j<w'. vc ! j < m') \<and>
           ((m' = 0 \<and> w' = 0) \<or> (w' < length vc \<and> vc ! w' = m'))"
        using True by (intro "1.IH"(2) [OF True le] a "1.prems"(2) c) simp
      with True le show ?thesis by (simp add: winnerLoop.simps [of i])
    qed
  qed
qed

lemma winnerLoop_leftmost_max:
  assumes ne: "vc \<noteq> []"
  shows "\<exists>k. winnerLoop 0 vc 0 0 = (vc ! k, k) \<and> k < length vc \<and>
           (\<forall>j<length vc. vc ! j \<le> vc ! k) \<and> (\<forall>j<k. vc ! j < vc ! k)"
proof -
  obtain m' w' where r: "winnerLoop 0 vc 0 0 = (m', w')" by (cases "winnerLoop 0 vc 0 0")
  from winnerLoop_inv [of 0 vc 0 0] r
  have mx: "\<forall>j<length vc. vc ! j \<le> m'" and lm: "\<forall>j<w'. vc ! j < m'"
    and d: "(m' = 0 \<and> w' = 0) \<or> (w' < length vc \<and> vc ! w' = m')"
    by simp_all
  from ne have n: "0 < length vc" by simp
  have "w' < length vc \<and> vc ! w' = m'"
  proof (cases "m' = 0 \<and> w' = 0")
    case True
    with mx n have "vc ! 0 \<le> 0" by blast
    then have "vc ! 0 = 0" by simp
    with True n show ?thesis by simp
  next
    case False
    with d show ?thesis by simp
  qed
  with r mx lm show ?thesis by auto
qed


text \<open>
  Claim C3. For every existing poll of a reachable ledger, active or ended, \<open>getWinner\<close>
  returns the index \<open>k\<close> of the leftmost option whose count is the maximum of \<open>voteCounts\<close>
  (every count is at most the count at \<open>k\<close>, every count left of \<open>k\<close> is strictly
  smaller), the text of that option and that count. When all counts are zero the result is
  index 0, the first option's text and count 0.
\<close>

theorem getWinner_leftmost_max:
  assumes r: "reachable s" and ex: "pollExists pid s"
  shows "\<exists>k. k < length (voteCounts (polls s pid)) \<and>
     getWinner pid s =
       Inr (of_nat k, options (polls s pid) ! k, voteCounts (polls s pid) ! k) \<and>
     unat (of_nat k :: uint256) = k \<and>
     (\<forall>j<length (voteCounts (polls s pid)).
        voteCounts (polls s pid) ! j \<le> voteCounts (polls s pid) ! k) \<and>
     (\<forall>j<k. voteCounts (polls s pid) ! j < voteCounts (polls s pid) ! k) \<and>
     ((\<forall>c \<in> set (voteCounts (polls s pid)). c = 0) \<longrightarrow>
        getWinner pid s = Inr (0, options (polls s pid) ! 0, 0))"
proof -
  from r have "ledgerInv s" by (rule reachable_ledgerInv)
  then have wf: "pollWf (polls s pid)" using ex by (rule ledgerInv_wf)
  then have len: "length (voteCounts (polls s pid)) = length (options (polls s pid))"
    and n2: "2 \<le> length (options (polls s pid))" and n10: "length (options (polls s pid)) \<le> 10"
    by (simp_all add: pollWf_def)
  from len n2 have ne: "voteCounts (polls s pid) \<noteq> []" by auto
  from winnerLoop_leftmost_max [OF ne] obtain k where
    w: "winnerLoop 0 (voteCounts (polls s pid)) 0 0 = (voteCounts (polls s pid) ! k, k)"
    and k: "k < length (voteCounts (polls s pid))"
    and mx: "\<forall>j<length (voteCounts (polls s pid)).
               voteCounts (polls s pid) ! j \<le> voteCounts (polls s pid) ! k"
    and lm: "\<forall>j<k. voteCounts (polls s pid) ! j < voteCounts (polls s pid) ! k"
    by blast
  from k len have ko: "k < length (options (polls s pid))" by simp
  have g: "getWinner pid s =
       Inr (of_nat k, options (polls s pid) ! k, voteCounts (polls s pid) ! k)"
    using ex ko by (simp add: getWinner_def Let_def w)
  from ko n10 have "k < 2 ^ 256" by simp
  then have u: "unat (of_nat k :: uint256) = k" by (simp add: unat_of_nat)
  have z: "getWinner pid s = Inr (0, options (polls s pid) ! 0, 0)"
    if a: "\<forall>c \<in> set (voteCounts (polls s pid)). c = 0"
  proof -
    from a k have c: "voteCounts (polls s pid) ! k = 0" by simp
    have "k = 0"
    proof (rule ccontr)
      assume "k \<noteq> 0"
      then have "0 < k" by simp
      with lm have "voteCounts (polls s pid) ! 0 < voteCounts (polls s pid) ! k" by blast
      with c show False by simp
    qed
    with g c show ?thesis by simp
  qed
  from k g u mx lm z show ?thesis by blast
qed

theorem getWinner_leftmost_max_witness:
  "reachable ledgerTied \<and> pollExists 1 ledgerTied \<and>
   voteCounts (polls ledgerTied 1) = [1, 0, 1, 0] \<and>
   getWinner 1 ledgerTied = Inr (0, ''JavaScript'', 1) \<and>
   reachable ledgerCreated \<and> pollExists 1 ledgerCreated \<and>
   voteCounts (polls ledgerCreated 1) = [0, 0, 0, 0] \<and>
   getWinner 1 ledgerCreated = Inr (0, ''JavaScript'', 0)"
proof -
  have ex: "pollExists 1 ledgerTied" "pollExists 1 ledgerCreated"
    by (simp_all add: ledgerTied_def ledgerCreated_def pollExists_def)
  have vc: "voteCounts (polls ledgerTied 1) = [1, 0, 1, 0]"
    "voteCounts (polls ledgerCreated 1) = [0, 0, 0, 0]"
    by (simp_all add: ledgerTied_def ledgerCreated_def samplePoll_def)
  have op: "options (polls ledgerTied 1) = sampleOptions"
    "options (polls ledgerCreated 1) = sampleOptions"
    by (simp_all add: ledgerTied_def ledgerCreated_def samplePoll_def)
  from getWinner_leftmost_max [OF reachable_ledgerTied ex(1)] obtain k where
    k0: "k < length (voteCounts (polls ledgerTied 1))"
    and g0: "getWinner 1 ledgerTied =
       Inr (of_nat k, options (polls ledgerTied 1) ! k, voteCounts (polls ledgerTied 1) ! k)"
    and lm0: "\<forall>j<k. voteCounts (polls ledgerTied 1) ! j < voteCounts (polls ledgerTied 1) ! k"
    by blast
  from k0 have k: "k < 4" by (simp add: vc)
  note g = g0 [unfolded vc op] and lm = lm0 [unfolded vc]
  have "k = 0"
  proof (rule ccontr)
    assume "k \<noteq> 0"
    then have "0 < k" by simp
    with lm have l: "[1, 0, 1, 0 :: uint256] ! 0 < [1, 0, 1, 0] ! k" by blast
    from \<open>k \<noteq> 0\<close> k consider "k = 1" | "k = 2" | "k = 3" by linarith
    then show False using l by cases simp_all
  qed
  with g have t: "getWinner 1 ledgerTied = Inr (0, ''JavaScript'', 1)"
    by (simp add: sampleOptions_def)
  from getWinner_leftmost_max [OF reachable_ledgerCreated ex(2)]
  have "(\<forall>c \<in> set (voteCounts (polls ledgerCreated 1)). c = 0) \<longrightarrow>
        getWinner 1 ledgerCreated = Inr (0, options (polls ledgerCreated 1) ! 0, 0)"
    by blast
  then have "getWinner 1 ledgerCreated = Inr (0, sampleOptions ! 0, 0)"
    by (simp add: vc op)
  then have c: "getWinner 1 ledgerCreated = Inr (0, ''JavaScript'', 0)"
    by (simp add: sampleOptions_def)
  from ex vc t c reachable_ledgerTied reachable_ledgerCreated show ?thesis by simp
qed

lemma sumCounts_total:
  assumes "unat t + sum_list (map unat (drop i vc)) < 2 ^ 256"
  shows "\<exists>r. sumCounts i vc t = Inr r \<and> unat r = unat t + sum_list (map unat (drop i vc))"
  using assms
proof (induction i vc t rule: sumCounts.induct)
  case (1 i vc t)
  show ?case
  proof (cases "i < length vc")
    case False
    then show ?thesis by (simp add: sumCounts.simps [of i])
  next
    case True
    then have d: "drop i vc = vc ! i # drop (Suc i) vc" by (simp add: Cons_nth_drop_Suc)
    with "1.prems" have b: "unat t + unat (vc ! i) < 2 ^ 256" by simp
    then have a: "checked_add t (vc ! i) = Inr (t + vc ! i)" by (simp add: checked_add_def)
    from b have u: "unat (t + vc ! i) = unat t + unat (vc ! i)"
      by (simp add: unat_add_lem [THEN iffD1])
    with "1.prems" d have "unat (t + vc ! i) + sum_list (map unat (drop (Suc i) vc)) < 2 ^ 256"
      by simp
    from "1.IH" [OF True a this] obtain r where
      "sumCounts (Suc i) vc (t + vc ! i) = Inr r"
      "unat r = unat (t + vc ! i) + sum_list (map unat (drop (Suc i) vc))"
      by blast
    with True a u d show ?thesis by (simp add: sumCounts.simps [of i])
  qed
qed

lemma tally_bound:
  assumes "tallyOk p"
  shows "sum_list (map unat (voteCounts p)) < 2 ^ 256"
proof -
  have "card {a. hasVoted p a} \<le> card (UNIV :: address set)"
    by (intro card_mono) simp_all
  then have "card {a. hasVoted p a} \<le> 2 ^ 160" by (simp add: card_word)
  moreover have "(2::nat) ^ 160 < 2 ^ 256" by simp
  ultimately show ?thesis using assms by (simp add: tallyOk_def)
qed

text \<open>
  Claim C8. For every existing poll of a reachable ledger, \<open>getPoll\<close> returns the stored
  id, question, options, vote counts, creator and end time; its \<open>active\<close> field is the stored
  flag conjoined with \<open>now < endTime\<close>, computed from the time of the query; its
  \<open>totalVotes\<close> field is the sum of all vote counts.
\<close>

theorem getPoll_snapshot:
  assumes r: "reachable s" and ex: "pollExists pid s"
  shows "\<exists>totalVotes. getPoll pid e s =
       Inr (id_poll (polls s pid), question (polls s pid), options (polls s pid),
            voteCounts (polls s pid), creator (polls s pid), endTime (polls s pid),
            active (polls s pid) \<and> block_timestamp e < endTime (polls s pid), totalVotes) \<and>
     unat totalVotes = sum_list (map unat (voteCounts (polls s pid))) \<and>
     id_poll (polls s pid) = pid"
proof -
  from r have inv: "ledgerInv s" by (rule reachable_ledgerInv)
  then have "pollWf (polls s pid)" using ex by (rule ledgerInv_wf)
  then have "tallyOk (polls s pid)" by (simp add: pollWf_def)
  then have "unat (0 :: uint256) + sum_list (map unat (drop 0 (voteCounts (polls s pid)))) < 2 ^ 256"
    using tally_bound by simp
  from sumCounts_total [OF this] obtain t where
    t: "sumCounts 0 (voteCounts (polls s pid)) 0 = Inr t"
    and u: "unat t = sum_list (map unat (voteCounts (polls s pid)))"
    by auto
  from ex t have "getPoll pid e s =
       Inr (id_poll (polls s pid), question (polls s pid), options (polls s pid),
            voteCounts (polls s pid), creator (polls s pid), endTime (polls s pid),
            active (polls s pid) \<and> block_timestamp e < endTime (polls s pid), t)"
    by (simp add: getPoll_def Let_def)
  with u ledgerInv_id [OF inv ex] show ?thesis by blast
qed

theorem getPoll_snapshot_witness:
  "reachable ledgerTied \<and> pollExists 1 ledgerTied \<and>
   getPoll 1 \<lparr>msg_sender = 9, block_timestamp = 1300\<rparr> ledgerTied =
     Inr (1, sampleQuestion, sampleOptions, [1, 0, 1, 0], 1, 4600, True, 2) \<and>
   active (polls ledgerTied 1) \<and>
   getPoll 1 \<lparr>msg_sender = 9, block_timestamp = 4600\<rparr> ledgerTied =
     Inr (1, sampleQuestion, sampleOptions, [1, 0, 1, 0], 1, 4600, False, 2)"
proof -
  have ex: "pollExists 1 ledgerTied" by (simp add: ledgerTied_def pollExists_def)
  have f: "polls ledgerTied 1 = samplePoll\<lparr>
     hasVoted := (\<lambda>_. False)(2 := True, 3 := True), voterChoice := (\<lambda>_. 0)(2 := 2, 3 := 0),
     voteCounts := [1, 0, 1, 0]\<rparr>"
    by (simp add: ledgerTied_def)
  have tot: "t = 2" if "unat t = sum_list (map unat [1, 0, 1, 0 :: uint256])" for t :: uint256
  proof -
    from that have "unat t = unat (2 :: uint256)" by simp
    then show ?thesis by (simp only: word_unat_eq_iff)
  qed
  from getPoll_snapshot [OF reachable_ledgerTied ex, of "\<lparr>msg_sender = 9, block_timestamp = 1300\<rparr>"]
  have 1: "getPoll 1 \<lparr>msg_sender = 9, block_timestamp = 1300\<rparr> ledgerTied =
     Inr (1, sampleQuestion, sampleOptions, [1, 0, 1, 0], 1, 4600, True, 2)"
    unfolding f using tot by (auto simp: samplePoll_def)
  from getPoll_snapshot [OF reachable_ledgerTied ex, of "\<lparr>msg_sender = 9, block_timestamp = 4600\<rparr>"]
  have 2: "getPoll 1 \<lparr>msg_sender = 9, block_timestamp = 4600\<rparr> ledgerTied =
     Inr (1, sampleQuestion, sampleOptions, [1, 0, 1, 0], 1, 4600, False, 2)"
    unfolding f using tot by (auto simp: samplePoll_def)
  have a: "active (polls ledgerTied 1)" by (simp add: f samplePoll_def)
  from reachable_ledgerTied ex 1 2 a show ?thesis by simp
qed

subsection \<open>Active polls\<close>

declare upt_Suc [simp del]

lemma word_succ_le:
  assumes "i \<le> (pc :: uint256)" and "unat pc + 1 < 2 ^ 256"
  shows "checked_add i 1 = Inr (i + 1)" and "unat (i + 1) = Suc (unat i)"
proof -
  from assms have b: "unat i + 1 < 2 ^ 256" by (simp add: word_le_nat_alt)
  then show "checked_add i 1 = Inr (i + 1)" by (simp add: checked_add_def)
  from b show "unat (i + 1) = Suc (unat i)" by (rule unat_succ)
qed

lemma upt_from:
  assumes "i \<le> (pc :: uint256)"
  shows "map of_nat [unat i..<Suc (unat pc)] = i # map of_nat [Suc (unat i)..<Suc (unat pc)]"
proof -
  from assms have "unat i < Suc (unat pc)" by (simp add: word_le_nat_alt)
  then show ?thesis by (simp add: upt_conv_Cons)
qed

lemma upt_past:
  assumes "\<not> i \<le> (pc :: uint256)"
  shows "[unat i..<Suc (unat pc)] = []"
  using assms by (simp add: word_le_nat_alt)

lemma countActive_length:
  assumes "unat (pollCount s) + 1 < 2 ^ 256"
    and "unat ac + length (filter (\<lambda>j. isActiveNow j e s)
           (map of_nat [unat i..<Suc (unat (pollCount s))])) < 2 ^ 256"
  shows "\<exists>r. countActive i e s ac = Inr r \<and>
     unat r = unat ac + length (filter (\<lambda>j. isActiveNow j e s)
           (map of_nat [unat i..<Suc (unat (pollCount s))]))"
  using assms
proof (induction i e s ac rule: countActive.induct)
  case (1 i e s ac)
  show ?case
  proof (cases "i \<le> pollCount s")
    case False
    then show ?thesis by (simp add: countActive.simps [of i] upt_past)
  next
    case True
    note nx = word_succ_le [OF True "1.prems"(1)]
    note up = upt_from [OF True]
    show ?thesis
    proof (cases "isActiveNow i e s")
      case act: True
      with "1.prems"(2) have b: "unat ac + 1 < 2 ^ 256" by (simp add: up)
      then have a: "checked_add ac 1 = Inr (ac + 1)" by (simp add: checked_add_def)
      from b have u: "unat (ac + 1) = Suc (unat ac)" by (rule unat_succ)
      have "\<exists>r. countActive (i + 1) e s (ac + 1) = Inr r \<and>
         unat r = unat (ac + 1) + length (filter (\<lambda>j. isActiveNow j e s)
           (map of_nat [unat (i + 1)..<Suc (unat (pollCount s))]))"
        using "1.prems" act
        by (intro "1.IH" [OF True _ nx(1)]) (simp_all add: a up nx(2) u)
      then show ?thesis
        using True act by (simp add: countActive.simps [of i] a nx up u)
    next
      case nact: False
      have "\<exists>r. countActive (i + 1) e s ac = Inr r \<and>
         unat r = unat ac + length (filter (\<lambda>j. isActiveNow j e s)
           (map of_nat [unat (i + 1)..<Suc (unat (pollCount s))]))"
        using "1.prems" nact
        by (intro "1.IH" [OF True _ nx(1)]) (simp_all add: up nx(2))
      then show ?thesis
        using True nact by (simp add: countActive.simps [of i] nx up)
    qed
  qed
qed

lemma collectActive_fill:
  assumes "unat (pollCount s) + 1 < 2 ^ 256"
    and "unat ix + length (filter (\<lambda>j. isActiveNow j e s)
           (map of_nat [unat i..<Suc (unat (pollCount s))])) \<le> length ids"
    and "length ids < 2 ^ 256"
  shows "collectActive i e s ids ix =
     Inr (take (unat ix) ids @
          filter (\<lambda>j. isActiveNow j e s) (map of_nat [unat i..<Suc (unat (pollCount s))]) @
          drop (unat ix + length (filter (\<lambda>j. isActiveNow j e s)
                  (map of_nat [unat i..<Suc (unat (pollCount s))]))) ids)"
  using assms
proof (induction i e s ids ix rule: collectActive.induct)
  case (1 i e s ids ix)
  show ?case
  proof (cases "i \<le> pollCount s")
    case False
    then show ?thesis by (simp add: collectActive.simps [of i] upt_past)
  next
    case True
    note nx = word_succ_le [OF True "1.prems"(1)]
    note up = upt_from [OF True]
    show ?thesis
    proof (cases "isActiveNow i e s")
      case act: True
      with "1.prems"(2) have k: "unat ix < length ids" by (simp add: up)
      with "1.prems"(3) have b: "unat ix + 1 < 2 ^ 256" by simp
      then have a: "checked_add ix 1 = Inr (ix + 1)" by (simp add: checked_add_def)
      from b have u: "unat (ix + 1) = Suc (unat ix)" by (rule unat_succ)
      have step: "(if isActiveNow i e s then
                 (if \<not> unat ix < length ids then Inl (Panic 50)
                  else case checked_add ix 1 of
                    Inl err \<Rightarrow> Inl err
                  | Inr ix' \<Rightarrow> Inr (list_update ids (unat ix) i, ix'))
               else Inr (ids, ix)) = Inr (list_update ids (unat ix) i, ix + 1)"
        using act k by (simp add: a)
      have ih: "collectActive (i + 1) e s (list_update ids (unat ix) i) (ix + 1) =
         Inr (take (unat (ix + 1)) (list_update ids (unat ix) i) @
          filter (\<lambda>j. isActiveNow j e s) (map of_nat [unat (i + 1)..<Suc (unat (pollCount s))]) @
          drop (unat (ix + 1) + length (filter (\<lambda>j. isActiveNow j e s)
                  (map of_nat [unat (i + 1)..<Suc (unat (pollCount s))]))) (list_update ids (unat ix) i))"
        using "1.prems" act
        by (intro "1.IH" [OF True step _ nx(1)]) (simp_all add: up nx(2) u)
      have t: "take (Suc (unat ix)) (list_update ids (unat ix) i) = take (unat ix) ids @ [i]"
        using k by (simp add: take_Suc_conv_app_nth)
      have "collectActive i e s ids ix =
          collectActive (i + 1) e s (list_update ids (unat ix) i) (ix + 1)"
        using True act k by (simp add: collectActive.simps [of i] a nx(1))
      with ih show ?thesis using act by (simp add: up nx(2) u t)
    next
      case nact: False
      have step: "(if isActiveNow i e s then
                 (if \<not> unat ix < length ids then Inl (Panic 50)
                  else case checked_add ix 1 of
                    Inl err \<Rightarrow> Inl err
                  | Inr ix' \<Rightarrow> Inr (list_update ids (unat ix) i, ix'))
               else Inr (ids, ix)) = Inr (ids, ix)"
        using nact by simp
      have ih: "collectActive (i + 1) e s ids ix =
         Inr (take (unat ix) ids @
          filter (\<lambda>j. isActiveNow j e s) (map of_nat [unat (i + 1)..<Suc (unat (pollCount s))]) @
          drop (unat ix + length (filter (\<lambda>j. isActiveNow j e s)
                  (map of_nat [unat (i + 1)..<Suc (unat (pollCount s))]))) ids)"
        using "1.prems" nact
        by (intro "1.IH" [OF True step _ nx(1)]) (simp_all add: up nx(2))
      have "collectActive i e s ids ix = collectActive (i + 1) e s ids ix"
        using True nact by (simp add: collectActive.simps [of i] nx(1))
      with ih show ?thesis using nact by (simp add: up nx(2))
    qed
  qed
qed


lemma unat_of_nat_le:
  assumes "k \<le> unat (pc :: uint256)"
  shows "unat (of_nat k :: uint256) = k"
proof -
  have "unat pc < 2 ^ LENGTH(256)" by (rule unsigned_less)
  then have "unat pc < 2 ^ 256" by simp
  with assms have "k < 2 ^ 256" by simp
  then show ?thesis by (simp add: unat_of_nat)
qed

lemma ids_upto_set:
  "set (map of_nat [1..<Suc (unat pc)]) = {i :: uint256. 0 < i \<and> i \<le> pc}"
proof (intro set_eqI iffI)
  fix i :: uint256
  assume "i \<in> set (map of_nat [1..<Suc (unat pc)])"
  then obtain k where k: "i = of_nat k" "1 \<le> k" "k \<le> unat pc" by auto
  from k(3) have "unat i = k" unfolding k(1) by (rule unat_of_nat_le)
  with k show "i \<in> {i. 0 < i \<and> i \<le> pc}"
    by (simp add: word_less_nat_alt word_le_nat_alt)
next
  fix i :: uint256
  assume "i \<in> {i. 0 < i \<and> i \<le> pc}"
  then have "1 \<le> unat i" "unat i \<le> unat pc"
    by (simp_all add: word_less_nat_alt word_le_nat_alt)
  then have "unat i \<in> set [1..<Suc (unat pc)]" by simp
  then have "of_nat (unat i) \<in> (of_nat ` set [1..<Suc (unat pc)] :: uint256 set)"
    by (rule imageI)
  then show "i \<in> set (map of_nat [1..<Suc (unat pc)])" by simp
qed

lemma ids_upto_sorted:
  "sorted_wrt (<) (map of_nat [1..<Suc (unat (pc :: uint256))] :: uint256 list)"
proof -
  have "sorted_wrt (\<lambda>a b. (of_nat a :: uint256) < of_nat b) [1..<Suc (unat pc)]"
  proof (rule sorted_wrt_mono_rel [of _ "(<)"])
    fix a b
    assume a: "a \<in> set [1..<Suc (unat pc)]" and b: "b \<in> set [1..<Suc (unat pc)]" and "a < b"
    from a have "unat (of_nat a :: uint256) = a" by (intro unat_of_nat_le [of _ pc]) simp
    moreover from b have "unat (of_nat b :: uint256) = b" by (intro unat_of_nat_le [of _ pc]) simp
    ultimately show "(of_nat a :: uint256) < of_nat b"
      using \<open>a < b\<close> by (simp add: word_less_nat_alt)
  qed simp
  then show ?thesis by (simp add: sorted_wrt_map)
qed

lemma getActivePolls_filter:
  assumes small: "unat (pollCount s) < 2 ^ 64"
  shows "getActivePolls e s =
     Inr (filter (\<lambda>j. isActiveNow j e s) (map of_nat [1..<Suc (unat (pollCount s))]))"
proof -
  let ?xs = "filter (\<lambda>j. isActiveNow j e s) (map of_nat [1..<Suc (unat (pollCount s))])"
  have "length ?xs \<le> length (map (of_nat :: nat \<Rightarrow> uint256) [1..<Suc (unat (pollCount s))])"
    by (rule length_filter_le)
  then have l: "length ?xs \<le> unat (pollCount s)" by simp
  have "(2::nat) ^ 64 + 1 < 2 ^ 256" by simp
  with small have assms: "unat (pollCount s) + 1 < 2 ^ 256" by linarith
  from l small have fits: "\<not> 2 ^ 64 - 1 < length ?xs" by simp
  from l assms have b: "unat (0 :: uint256) + length (filter (\<lambda>j. isActiveNow j e s)
           (map of_nat [unat (1 :: uint256)..<Suc (unat (pollCount s))])) < 2 ^ 256"
    by simp
  from countActive_length [OF assms b] obtain r where
    r: "countActive 1 e s 0 = Inr r" and u: "unat r = length ?xs"
    by auto
  have "collectActive 1 e s (replicate (unat r) 0) 0 =
     Inr (take (unat (0 :: uint256)) (replicate (unat r) 0) @
          filter (\<lambda>j. isActiveNow j e s) (map of_nat [unat (1 :: uint256)..<Suc (unat (pollCount s))]) @
          drop (unat (0 :: uint256) + length (filter (\<lambda>j. isActiveNow j e s)
                  (map of_nat [unat (1 :: uint256)..<Suc (unat (pollCount s))]))) (replicate (unat r) 0))"
    using u l assms by (intro collectActive_fill [OF assms]) simp_all
  then have "collectActive 1 e s (replicate (unat r) 0) 0 = Inr ?xs"
    using u by simp
  with r u fits show ?thesis by (simp add: getActivePolls_def)
qed

text \<open>
  Claim C9. For every current time and every ledger state, \<open>getActivePolls\<close> returns
  exactly the ids \<open>i\<close> in \<open>1..pollCount\<close> whose stored \<open>active\<close> flag is set and whose
  \<open>endTime\<close> is after the current time, in strictly ascending order (so without
  duplicates). A flagged poll whose end time has passed and an explicitly ended poll are both
  left out. A ledger holds fewer than \<open>2^64\<close> polls: each poll costs a transaction, and
  a result array of more than \<open>2^64 - 1\<close> ids cannot be allocated.
\<close>

theorem getActivePolls_exact:
  assumes "unat (pollCount s) < 2 ^ 64"
  shows "\<exists>ids. getActivePolls e s = Inr ids \<and>
     ids = filter (\<lambda>i. active (polls s i) \<and> block_timestamp e < endTime (polls s i))
             (map of_nat [1..<Suc (unat (pollCount s))]) \<and>
     set ids = {i. 0 < i \<and> i \<le> pollCount s \<and>
                   active (polls s i) \<and> block_timestamp e < endTime (polls s i)} \<and>
     sorted_wrt (<) ids \<and> distinct ids"
proof -
  define ids where "ids = filter (\<lambda>i. active (polls s i) \<and> block_timestamp e < endTime (polls s i))
             (map of_nat [1..<Suc (unat (pollCount s))])"
  from assms have g: "getActivePolls e s = Inr ids"
    unfolding ids_def by (simp add: getActivePolls_filter isActiveNow_def)
  have s: "set ids = {i. 0 < i \<and> i \<le> pollCount s \<and>
                   active (polls s i) \<and> block_timestamp e < endTime (polls s i)}"
    unfolding ids_def set_filter ids_upto_set by blast
  have o: "sorted_wrt (<) ids"
    unfolding ids_def by (intro sorted_wrt_filter ids_upto_sorted)
  then have "distinct ids" by (simp add: strict_sorted_iff)
  with g s o ids_def show ?thesis by blast
qed

theorem getActivePolls_exact_witness:
  "unat (pollCount ledgerThree) < 2 ^ 64 \<and>
   active (polls ledgerThree 1) \<and> (2000 :: uint256) < endTime (polls ledgerThree 1) \<and>
   active (polls ledgerThree 2) \<and> endTime (polls ledgerThree 2) \<le> (2000 :: uint256) \<and>
   \<not> active (polls ledgerThree 3) \<and>
   getActivePolls \<lparr>msg_sender = 9, block_timestamp = 2000\<rparr> ledgerThree = Inr [1]"
proof -
  have b: "unat (pollCount ledgerThree) < 2 ^ 64" by (simp add: ledgerThree_def)
  have u: "[1..<Suc (unat (pollCount ledgerThree))] = [1, 2, 3]"
    by (simp add: ledgerThree_def upt_conv_Cons)
  have f: "active (polls ledgerThree 1)" "(2000 :: uint256) < endTime (polls ledgerThree 1)"
    "active (polls ledgerThree 2)" "endTime (polls ledgerThree 2) \<le> (2000 :: uint256)"
    "\<not> active (polls ledgerThree 3)"
    by (simp_all add: ledgerThree_def samplePoll_def)
  from getActivePolls_exact [OF b, of "\<lparr>msg_sender = 9, block_timestamp = 2000\<rparr>"]
  have "getActivePolls \<lparr>msg_sender = 9, block_timestamp = 2000\<rparr> ledgerThree =
     Inr (filter (\<lambda>i. active (polls ledgerThree i) \<and>
                   block_timestamp \<lparr>msg_sender = 9, block_timestamp = 2000\<rparr>
                     < endTime (polls ledgerThree i))
             (map of_nat [1..<Suc (unat (pollCount ledgerThree))]))"
    by blast
  then have "getActivePolls \<lparr>msg_sender = 9, block_timestamp = 2000\<rparr> ledgerThree = Inr [1]"
    unfolding u using f by (simp add: not_less)
  with b f show ?thesis by simp
qed

subsection \<open>Creating a poll\<close>

text \<open>
  Claim C4. In a reachable ledger, for every valid input (non-empty question, 2 to 10
  non-empty options, duration in 1..10080), \<open>createPoll\<close> returns the previous \<open>pollCount\<close>
  plus one as the new id, and the poll stored under that id has the given question and
  options, as many vote counts as options, every count 0, \<open>active\<close> set, the caller as
  creator and \<open>endTime = now + durationMinutes * 60\<close>. The call runs on a chain: the block
  timestamp is below \<open>2^64\<close> seconds and the ledger holds fewer than \<open>2^64\<close> polls, so
  neither checked addition can overflow.
\<close>

theorem createPoll_stores_poll:
  assumes r: "reachable s"
    and q: "q \<noteq> []" and n2: "2 \<le> length opts" and n10: "length opts \<le> 10"
    and ne: "\<forall>x \<in> set opts. x \<noteq> []"
    and d0: "0 < dur" and d1: "dur \<le> 10080"
    and pc: "unat (pollCount s) < 2 ^ 64"
    and tm: "unat (block_timestamp e) < 2 ^ 64"
  shows "\<exists>s'. createPoll q opts dur e s = Inr (pollCount s + 1, s') \<and>
     unat (pollCount s + 1) = unat (pollCount s) + 1 \<and>
     pollCount s' = pollCount s + 1 \<and>
     id_poll (polls s' (pollCount s + 1)) = pollCount s + 1 \<and>
     question (polls s' (pollCount s + 1)) = q \<and>
     options (polls s' (pollCount s + 1)) = opts \<and>
     length (voteCounts (polls s' (pollCount s + 1))) = length opts \<and>
     (\<forall>c \<in> set (voteCounts (polls s' (pollCount s + 1))). c = 0) \<and>
     active (polls s' (pollCount s + 1)) \<and>
     creator (polls s' (pollCount s + 1)) = msg_sender e \<and>
     endTime (polls s' (pollCount s + 1)) = block_timestamp e + dur * 60 \<and>
     unat (endTime (polls s' (pollCount s + 1))) = unat (block_timestamp e) + unat dur * 60"
proof -
  from r have inv: "ledgerInv s" by (rule reachable_ledgerInv)
  have big: "(2::nat) ^ 64 + 604800 < 2 ^ 256" by simp
  with pc have pc': "unat (pollCount s) + 1 < 2 ^ 256" by linarith
  then have u: "unat (pollCount s + 1) = Suc (unat (pollCount s))" by (rule unat_succ)
  then have "pollCount s < pollCount s + 1" by (simp add: word_less_nat_alt)
  with inv have fresh: "polls s (pollCount s + 1) = emptyPoll" by (simp add: ledgerInv_empty)
  from d1 have du: "unat dur \<le> 10080" by (simp add: word_le_nat_alt)
  with tm big have ts: "unat (block_timestamp e) + 60 * unat dur < 2 ^ 256" by linarith
  from du have um: "unat (dur * 60) = unat dur * 60" using unat_mult_lem [of dur 60] by simp
  with ts have "unat (block_timestamp e) + unat (dur * 60) < 2 ^ 256" by simp
  then have ue: "unat (block_timestamp e + dur * 60) = unat (block_timestamp e) + unat dur * 60"
    using um by (simp add: unat_add_lem [THEN iffD1])
  define s' where "s' = s\<lparr>pollCount := pollCount s + 1,
            polls := (polls s)(pollCount s + 1 :=
              \<lparr>id_poll = pollCount s + 1, question = q, options = opts,
               voteCounts = replicate (length opts) 0, creator = msg_sender e,
               endTime = block_timestamp e + dur * 60, active = True,
               hasVoted = (\<lambda>_. False), voterChoice = (\<lambda>_. 0)\<rparr>)\<rparr>"
  have c: "createPoll q opts dur e s = Inr (pollCount s + 1, s')"
    unfolding s'_def by (rule createPoll_ok [OF q n2 n10 d0 d1 ne pc' ts fresh])
  have "pollCount s' = pollCount s + 1"
    "id_poll (polls s' (pollCount s + 1)) = pollCount s + 1"
    "question (polls s' (pollCount s + 1)) = q"
    "options (polls s' (pollCount s + 1)) = opts"
    "length (voteCounts (polls s' (pollCount s + 1))) = length opts"
    "\<forall>c \<in> set (voteCounts (polls s' (pollCount s + 1))). c = 0"
    "active (polls s' (pollCount s + 1))"
    "creator (polls s' (pollCount s + 1)) = msg_sender e"
    "endTime (polls s' (pollCount s + 1)) = block_timestamp e + dur * 60"
    by (simp_all add: s'_def)
  with c u ue show ?thesis by (intro exI [of _ s']) simp
qed

theorem createPoll_stores_poll_witness:
  "reachable deployed \<and> sampleQuestion \<noteq> [] \<and> 2 \<le> length sampleOptions \<and>
   length sampleOptions \<le> 10 \<and> [] \<notin> set sampleOptions \<and>
   createPoll sampleQuestion sampleOptions 60 \<lparr>msg_sender = 1, block_timestamp = 1000\<rparr> deployed
     = Inr (1, ledgerCreated) \<and>
   pollCount deployed = 0 \<and> pollCount ledgerCreated = 1 \<and>
   voteCounts (polls ledgerCreated 1) = [0, 0, 0, 0] \<and>
   active (polls ledgerCreated 1) \<and> creator (polls ledgerCreated 1) = 1 \<and>
   endTime (polls ledgerCreated 1) = 4600"
proof -
  have h: "sampleQuestion \<noteq> []" "2 \<le> length sampleOptions" "length sampleOptions \<le> 10"
    "\<forall>x \<in> set sampleOptions. x \<noteq> []" "0 < (60 :: uint256)" "(60 :: uint256) \<le> 10080"
    "unat (pollCount deployed) < 2 ^ 64"
    "unat (block_timestamp \<lparr>msg_sender = 1, block_timestamp = 1000\<rparr>) < 2 ^ 64"
    by (simp_all add: sampleQuestion_def sampleOptions_def deployed_def)
  from createPoll_stores_poll [OF reach_deployed h] obtain s' where
    c: "createPoll sampleQuestion sampleOptions 60 \<lparr>msg_sender = 1, block_timestamp = 1000\<rparr> deployed
       = Inr (pollCount deployed + 1, s')"
    by blast
  with ledgerCreated_step have e: "s' = ledgerCreated" by simp
  have f: "pollCount deployed = 0" "pollCount ledgerCreated = 1"
    "voteCounts (polls ledgerCreated 1) = [0, 0, 0, 0]"
    "active (polls ledgerCreated 1)" "creator (polls ledgerCreated 1) = 1"
    "endTime (polls ledgerCreated 1) = 4600"
    by (simp_all add: deployed_def ledgerCreated_def samplePoll_def)
  from c e h f reach_deployed show ?thesis by auto
qed

lemma pushOptions_prefix:
  assumes "i \<le> length opts" and "\<forall>j<i. opts ! j \<noteq> []"
  shows "pushOptions 0 opts p =
     pushOptions i opts (p\<lparr>options := options p @ take i opts,
                            voteCounts := voteCounts p @ replicate i 0\<rparr>)"
  using assms
proof (induction i)
  case 0
  show ?case by simp
next
  case (Suc i)
  then have lt: "i < length opts" and ne: "opts ! i \<noteq> []" by simp_all
  from Suc have "pushOptions 0 opts p =
     pushOptions i opts (p\<lparr>options := options p @ take i opts,
                            voteCounts := voteCounts p @ replicate i 0\<rparr>)"
    by simp
  also have "\<dots> = pushOptions (Suc i) opts
     (p\<lparr>options := (options p @ take i opts) @ [opts ! i],
        voteCounts := (voteCounts p @ replicate i 0) @ [0]\<rparr>)"
    using lt ne by (simp add: pushOptions.simps [of i])
  also have "\<dots> = pushOptions (Suc i) opts
     (p\<lparr>options := options p @ take (Suc i) opts,
        voteCounts := voteCounts p @ replicate (Suc i) 0\<rparr>)"
    using lt by (simp add: take_Suc_conv_app_nth replicate_append_same)
  finally show ?case .
qed

text \<open>
  Claim C5. \<open>createPoll\<close> rejects an invalid input with the revert reason of the first
  failing check, in the order: empty question; fewer than 2 options; more than 10 options;
  duration 0; duration above 10080; the first empty option in index order. The loop over the
  options stores the options before the first empty one and reverts at its index. The six
  reasons are pairwise different, and a rejected call leaves \<open>pollCount\<close> and the stored
  polls as they were. The first five rejections hold in every state and at every time; the
  option check comes after the two checked additions, which cannot overflow on a chain
  (block timestamp below \<open>2^64\<close> seconds, fewer than \<open>2^64\<close> polls).
\<close>

theorem createPoll_rejections:
  "(q = [] \<longrightarrow> createPoll q opts dur e s = Inl (Revert ''Question cannot be empty'')) \<and>
   (q \<noteq> [] \<and> length opts < 2 \<longrightarrow>
      createPoll q opts dur e s = Inl (Revert ''Need at least 2 options'')) \<and>
   (q \<noteq> [] \<and> 10 < length opts \<longrightarrow>
      createPoll q opts dur e s = Inl (Revert ''Maximum 10 options allowed'')) \<and>
   (q \<noteq> [] \<and> 2 \<le> length opts \<and> length opts \<le> 10 \<and> dur = 0 \<longrightarrow>
      createPoll q opts dur e s = Inl (Revert ''Duration must be positive'')) \<and>
   (q \<noteq> [] \<and> 2 \<le> length opts \<and> length opts \<le> 10 \<and> 10080 < dur \<longrightarrow>
      createPoll q opts dur e s = Inl (Revert ''Max duration is 7 days'')) \<and>
   (\<forall>i. q \<noteq> [] \<and> 2 \<le> length opts \<and> length opts \<le> 10 \<and> 0 < dur \<and> dur \<le> 10080 \<and>
      i < length opts \<and> opts ! i = [] \<and> (\<forall>j<i. opts ! j \<noteq> []) \<and>
      unat (pollCount s) < 2 ^ 64 \<and> unat (block_timestamp e) < 2 ^ 64 \<longrightarrow>
      createPoll q opts dur e s = Inl (Revert ''Option cannot be empty'')) \<and>
   (\<forall>i p. i < length opts \<and> opts ! i = [] \<and> (\<forall>j<i. opts ! j \<noteq> []) \<longrightarrow>
      pushOptions 0 opts p =
        pushOptions i opts (p\<lparr>options := options p @ take i opts,
                               voteCounts := voteCounts p @ replicate i 0\<rparr>) \<and>
      pushOptions i opts (p\<lparr>options := options p @ take i opts,
                             voteCounts := voteCounts p @ replicate i 0\<rparr>)
        = Inl (Revert ''Option cannot be empty'')) \<and>
   (\<forall>err. createPoll q opts dur e s = Inl err \<longrightarrow>
      commit s (map_sum id snd (createPoll q opts dur e s)) = s) \<and>
   distinct [''Question cannot be empty'', ''Need at least 2 options'',
             ''Maximum 10 options allowed'', ''Duration must be positive'',
             ''Max duration is 7 days'', ''Option cannot be empty'']"
proof -
  have 1: "createPoll q opts dur e s = Inl (Revert ''Question cannot be empty'')" if "q = []"
    using that by (simp add: createPoll_def)
  have 2: "createPoll q opts dur e s = Inl (Revert ''Need at least 2 options'')"
    if "q \<noteq> [] \<and> length opts < 2"
    using that by (simp add: createPoll_def)
  have 3: "createPoll q opts dur e s = Inl (Revert ''Maximum 10 options allowed'')"
    if "q \<noteq> [] \<and> 10 < length opts"
    using that by (simp add: createPoll_def)
  have 4: "createPoll q opts dur e s = Inl (Revert ''Duration must be positive'')"
    if "q \<noteq> [] \<and> 2 \<le> length opts \<and> length opts \<le> 10 \<and> dur = 0"
    using that by (simp add: createPoll_def)
  have 5: "createPoll q opts dur e s = Inl (Revert ''Max duration is 7 days'')"
    if "q \<noteq> [] \<and> 2 \<le> length opts \<and> length opts \<le> 10 \<and> 10080 < dur"
  proof -
    from that have "0 < dur" by (auto simp: word_less_nat_alt)
    with that show ?thesis by (simp add: createPoll_def not_le)
  qed
  have 6: "createPoll q opts dur e s = Inl (Revert ''Option cannot be empty'')"
    if h: "q \<noteq> [] \<and> 2 \<le> length opts \<and> length opts \<le> 10 \<and> 0 < dur \<and> dur \<le> 10080 \<and>
      i < length opts \<and> opts ! i = [] \<and> (\<forall>j<i. opts ! j \<noteq> []) \<and>
      unat (pollCount s) < 2 ^ 64 \<and> unat (block_timestamp e) < 2 ^ 64" for i
  proof -
    have big: "(2::nat) ^ 64 + 604800 < 2 ^ 256" by simp
    from h have du: "unat dur \<le> 10080" by (simp add: word_le_nat_alt)
    then have m: "checked_mul dur 60 = Inr (dur * 60)"
      and um: "unat (dur * 60) = unat dur * 60"
      using unat_mult_lem [of dur 60] by (simp_all add: checked_mul_def)
    from h big have "unat (pollCount s) + 1 < 2 ^ 256" by linarith
    then have a1: "checked_add (pollCount s) 1 = Inr (pollCount s + 1)"
      by (simp add: checked_add_def)
    from h du big have "unat (block_timestamp e) + unat dur * 60 < 2 ^ 256" by linarith
    with um have a2: "checked_add (block_timestamp e) (dur * 60) = Inr (block_timestamp e + dur * 60)"
      by (simp add: checked_add_def)
    from h have "[] \<in> set opts" by (metis nth_mem)
    with h show ?thesis by (simp add: createPoll_def m a1 a2 pushOptions_eq)
  qed
  have 7: "pushOptions 0 opts p =
        pushOptions i opts (p\<lparr>options := options p @ take i opts,
                               voteCounts := voteCounts p @ replicate i 0\<rparr>) \<and>
      pushOptions i opts (p\<lparr>options := options p @ take i opts,
                             voteCounts := voteCounts p @ replicate i 0\<rparr>)
        = Inl (Revert ''Option cannot be empty'')"
    if h: "i < length opts \<and> opts ! i = [] \<and> (\<forall>j<i. opts ! j \<noteq> [])" for i p
  proof
    from h show "pushOptions 0 opts p =
        pushOptions i opts (p\<lparr>options := options p @ take i opts,
                               voteCounts := voteCounts p @ replicate i 0\<rparr>)"
      by (intro pushOptions_prefix) simp_all
    from h show "pushOptions i opts (p\<lparr>options := options p @ take i opts,
                             voteCounts := voteCounts p @ replicate i 0\<rparr>)
        = Inl (Revert ''Option cannot be empty'')"
      by (simp add: pushOptions.simps [of i])
  qed
  have 8: "\<forall>err. createPoll q opts dur e s = Inl err \<longrightarrow>
      commit s (map_sum id snd (createPoll q opts dur e s)) = s"
    by (simp add: commit_def)
  have 9: "distinct [''Question cannot be empty'', ''Need at least 2 options'',
             ''Maximum 10 options allowed'', ''Duration must be positive'',
             ''Max duration is 7 days'', ''Option cannot be empty'']"
    by simp
  from 1 2 3 4 5 6 7 8 9 show ?thesis by blast
qed

theorem createPoll_rejections_witness:
  "createPoll [] sampleOptions 60 \<lparr>msg_sender = 1, block_timestamp = 1000\<rparr> deployed
     = Inl (Revert ''Question cannot be empty'') \<and>
   createPoll sampleQuestion [''Only one''] 60 \<lparr>msg_sender = 1, block_timestamp = 1000\<rparr> deployed
     = Inl (Revert ''Need at least 2 options'') \<and>
   createPoll sampleQuestion (replicate 11 ''Option'') 60
       \<lparr>msg_sender = 1, block_timestamp = 1000\<rparr> deployed
     = Inl (Revert ''Maximum 10 options allowed'') \<and>
   createPoll sampleQuestion sampleOptions 0 \<lparr>msg_sender = 1, block_timestamp = 1000\<rparr> deployed
     = Inl (Revert ''Duration must be positive'') \<and>
   createPoll sampleQuestion sampleOptions 10081 \<lparr>msg_sender = 1, block_timestamp = 1000\<rparr> deployed
     = Inl (Revert ''Max duration is 7 days'') \<and>
   createPoll sampleQuestion [''Valid'', [], ''Later'', []] 60
       \<lparr>msg_sender = 1, block_timestamp = 1000\<rparr> deployed
     = Inl (Revert ''Option cannot be empty'') \<and>
   pushOptions 0 [''Valid'', [], ''Later'', []] emptyPoll =
     pushOptions 1 [''Valid'', [], ''Later'', []]
       (emptyPoll\<lparr>options := [''Valid''], voteCounts := [0]\<rparr>) \<and>
   pushOptions 1 [''Valid'', [], ''Later'', []]
       (emptyPoll\<lparr>options := [''Valid''], voteCounts := [0]\<rparr>)
     = Inl (Revert ''Option cannot be empty'') \<and>
   commit deployed (map_sum id snd
       (createPoll sampleQuestion [''Valid'', [], ''Later'', []] 60
          \<lparr>msg_sender = 1, block_timestamp = 1000\<rparr> deployed))
     = deployed"
proof -
  have q: "sampleQuestion \<noteq> []" by (simp add: sampleQuestion_def)
  have o: "length sampleOptions = 4" by (simp add: sampleOptions_def)
  have 1: "createPoll [] sampleOptions 60 \<lparr>msg_sender = 1, block_timestamp = 1000\<rparr> deployed
     = Inl (Revert ''Question cannot be empty'')"
    using createPoll_rejections [of "[]" sampleOptions 60
        "\<lparr>msg_sender = 1, block_timestamp = 1000\<rparr>" deployed]
    by simp
  have 2: "createPoll sampleQuestion [''Only one''] 60 \<lparr>msg_sender = 1, block_timestamp = 1000\<rparr> deployed
     = Inl (Revert ''Need at least 2 options'')"
    using createPoll_rejections [of sampleQuestion "[''Only one'']" 60
        "\<lparr>msg_sender = 1, block_timestamp = 1000\<rparr>" deployed] q
    by simp
  have 3: "createPoll sampleQuestion (replicate 11 ''Option'') 60
       \<lparr>msg_sender = 1, block_timestamp = 1000\<rparr> deployed
     = Inl (Revert ''Maximum 10 options allowed'')"
    using createPoll_rejections [of sampleQuestion "replicate 11 ''Option''" 60
        "\<lparr>msg_sender = 1, block_timestamp = 1000\<rparr>" deployed] q
    by simp
  have 4: "createPoll sampleQuestion sampleOptions 0 \<lparr>msg_sender = 1, block_timestamp = 1000\<rparr> deployed
     = Inl (Revert ''Duration must be positive'')"
    using createPoll_rejections [of sampleQuestion sampleOptions 0
        "\<lparr>msg_sender = 1, block_timestamp = 1000\<rparr>" deployed] q o
    by simp
  have 5: "createPoll sampleQuestion sampleOptions 10081 \<lparr>msg_sender = 1, block_timestamp = 1000\<rparr> deployed
     = Inl (Revert ''Max duration is 7 days'')"
    using createPoll_rejections [of sampleQuestion sampleOptions 10081
        "\<lparr>msg_sender = 1, block_timestamp = 1000\<rparr>" deployed] q o
    by simp
  note r = createPoll_rejections [of sampleQuestion "[''Valid'', [], ''Later'', []]" 60
        "\<lparr>msg_sender = 1, block_timestamp = 1000\<rparr>" deployed]
  have f: "(1::nat) < length [''Valid'', [], ''Later'', []]"
    "[''Valid'', [], ''Later'', []] ! 1 = []"
    "\<forall>j<1. [''Valid'', [], ''Later'', []] ! j \<noteq> []"
    by simp_all
  from r have "sampleQuestion \<noteq> [] \<and> 2 \<le> length [''Valid'', [], ''Later'', []] \<and>
      length [''Valid'', [], ''Later'', []] \<le> 10 \<and> 0 < (60 :: uint256) \<and> (60 :: uint256) \<le> 10080 \<and>
      (1::nat) < length [''Valid'', [], ''Later'', []] \<and> [''Valid'', [], ''Later'', []] ! 1 = [] \<and>
      (\<forall>j<1. [''Valid'', [], ''Later'', []] ! j \<noteq> []) \<and>
      unat (pollCount deployed) < 2 ^ 64 \<and>
      unat (block_timestamp \<lparr>msg_sender = 1, block_timestamp = 1000\<rparr>) < 2 ^ 64 \<longrightarrow>
      createPoll sampleQuestion [''Valid'', [], ''Later'', []] 60
        \<lparr>msg_sender = 1, block_timestamp = 1000\<rparr> deployed
      = Inl (Revert ''Option cannot be empty'')"
    by blast
  then have 6: "createPoll sampleQuestion [''Valid'', [], ''Later'', []] 60
       \<lparr>msg_sender = 1, block_timestamp = 1000\<rparr> deployed
     = Inl (Revert ''Option cannot be empty'')"
    using q by (simp add: deployed_def)
  from r have "(1::nat) < length [''Valid'', [], ''Later'', []] \<and>
      [''Valid'', [], ''Later'', []] ! 1 = [] \<and>
      (\<forall>j<1. [''Valid'', [], ''Later'', []] ! j \<noteq> []) \<longrightarrow>
      pushOptions 0 [''Valid'', [], ''Later'', []] emptyPoll =
        pushOptions 1 [''Valid'', [], ''Later'', []]
          (emptyPoll\<lparr>options := options emptyPoll @ take 1 [''Valid'', [], ''Later'', []],
                       voteCounts := voteCounts emptyPoll @ replicate 1 0\<rparr>) \<and>
      pushOptions 1 [''Valid'', [], ''Later'', []]
          (emptyPoll\<lparr>options := options emptyPoll @ take 1 [''Valid'', [], ''Later'', []],
                       voteCounts := voteCounts emptyPoll @ replicate 1 0\<rparr>)
        = Inl (Revert ''Option cannot be empty'')"
    by blast
  with f have 7: "pushOptions 0 [''Valid'', [], ''Later'', []] emptyPoll =
     pushOptions 1 [''Valid'', [], ''Later'', []]
       (emptyPoll\<lparr>options := [''Valid''], voteCounts := [0]\<rparr>)"
    "pushOptions 1 [''Valid'', [], ''Later'', []]
       (emptyPoll\<lparr>options := [''Valid''], voteCounts := [0]\<rparr>)
     = Inl (Revert ''Option cannot be empty'')"
    by (simp_all add: emptyPoll_def)
  have 8: "commit deployed (map_sum id snd
       (createPoll sampleQuestion [''Valid'', [], ''Later'', []] 60
          \<lparr>msg_sender = 1, block_timestamp = 1000\<rparr> deployed))
     = deployed"
    using r 6 by simp
  from 1 2 3 4 5 6 7 8 show ?thesis by simp
qed

end
